theory Spec2Isabelle
  imports Complex_Main "HOL-Library.AList"
begin

chapter \<open>The proxy configuration manager and the anti-entropy syncer\<close>

text \<open>
  A shallow embedding of two Go packages: \<open>agent/local/ae\<close> (the state syncer) and
  \<open>proxycfg\<close> (the per-proxy snapshot assembler with its kind handlers).

  Conventions. A Go map is an association list; ranging over the map visits the
  entries of the list, and \<open>delete\<close> removes every entry of the key. A
  \<open>context.CancelFunc\<close> is a handle (a natural number); calling it is recorded in a
  log of effects, as is every call of \<open>Notify\<close>. A panic is the left summand of a sum
  type. A handler that mutates the snapshot before it returns an error yields the
  snapshot together with the optional error. Of the logger, only the lines that matter
  to a property are kept. Locks are left out: every function is one atomic step.
\<close>

section \<open>Package ae: cluster-size scaling\<close>

text \<open>
  \<open>scaleFactor\<close> computes with \<open>math.Log2\<close> and \<open>math.Ceil\<close> on \<open>float64\<close>. The
  embedding reads both as the exact real functions, and the conversion \<open>int(x)\<close> as
  truncation towards zero.
\<close>

definition scaleThreshold :: int where
  "scaleThreshold = 128"

definition go_int :: "real \<Rightarrow> int" where
  "go_int x = (if 0 \<le> x then \<lfloor>x\<rfloor> else \<lceil>x\<rceil>)"

definition math_Ceil :: "real \<Rightarrow> real" where
  "math_Ceil x = real_of_int \<lceil>x\<rceil>"

definition math_Log2 :: "real \<Rightarrow> real" where
  "math_Log2 x = log 2 x"

definition scaleFactor :: "int \<Rightarrow> int" where
  "scaleFactor nodes =
     (if nodes \<le> scaleThreshold then 1
      else go_int (math_Ceil (math_Log2 (real_of_int nodes)
                              - math_Log2 (real_of_int scaleThreshold)) + 1.0))"

section \<open>Package proxycfg: registrations\<close>

text \<open>
  The opaque configuration map of a proxy or an upstream (\<open>map[string]interface{}\<close>)
  is the type parameter \<open>'c\<close>.
\<close>

record EnterpriseMeta =
  Namespace :: string

definition IntentionDefaultNamespace :: string where
  "IntentionDefaultNamespace = ''default''"

definition NamespaceOrDefault :: "EnterpriseMeta \<Rightarrow> string" where
  "NamespaceOrDefault m =
     (if Namespace m = [] then IntentionDefaultNamespace else Namespace m)"

record ServiceID =
  sid_ID :: string
  sid_EnterpriseMeta :: EnterpriseMeta

definition UpstreamDestTypePreparedQuery :: string where
  "UpstreamDestTypePreparedQuery = ''prepared_query''"

record 'c Upstream =
  DestinationType :: string
  DestinationNamespace :: string
  DestinationName :: string
  us_Datacenter :: string
  us_MeshGateway :: string
  us_Config :: 'c
  CentrallyConfigured :: bool

record 'c ConnectProxyConfig =
  DestinationServiceName :: string
  DestinationServiceID :: string
  Mode :: string
  MeshGateway :: string
  Config :: 'c
  Upstreams :: "'c Upstream list"

record 'c NodeService =
  ns_Kind :: string
  ns_ID :: string
  ns_Service :: string
  ns_Address :: string
  ns_Port :: int
  ns_Proxy :: "'c ConnectProxyConfig"
  ns_EnterpriseMeta :: EnterpriseMeta

record 'c serviceInstance =
  kind :: string
  service :: string
  proxyID :: ServiceID
  address :: string
  port :: int
  proxyCfg :: "'c ConnectProxyConfig"
  token :: string

text \<open>
  The result of \<open>copystructure.Copy\<close> followed by the type assertion of
  \<open>copyProxyConfig\<close>: the copy fails, or yields a value of another type, or yields
  the copied configuration.
\<close>

datatype 'a copied = CopyError | CopyWrongType | Copied 'a

datatype error = CopyFailed | FailedToCopyProxyConfig

definition emptyProxyConfig :: "'c \<Rightarrow> 'c ConnectProxyConfig" where
  "emptyProxyConfig z =
     \<lparr>DestinationServiceName = [], DestinationServiceID = [], Mode = [],
      MeshGateway = [], Config = z, Upstreams = []\<rparr>"

definition defaultUpstreamNamespace :: "string \<Rightarrow> 'c Upstream \<Rightarrow> 'c Upstream" where
  "defaultUpstreamNamespace nsp us =
     (if DestinationType us \<noteq> UpstreamDestTypePreparedQuery \<and> DestinationNamespace us = []
      then us\<lparr>DestinationNamespace := nsp\<rparr> else us)"

text \<open>
  \<open>copyProxyConfig\<close> returns the zero configuration together with the error, as the
  Go function does; \<open>z\<close> is the nil configuration map.
\<close>

definition copyProxyConfig ::
  "('c ConnectProxyConfig \<Rightarrow> 'c ConnectProxyConfig copied) \<Rightarrow> 'c \<Rightarrow>
   'c NodeService option \<Rightarrow> 'c ConnectProxyConfig \<times> error option" where
  "copyProxyConfig copy z ns =
     (case ns of
        None \<Rightarrow> (emptyProxyConfig z, None)
      | Some n \<Rightarrow>
          (case copy (ns_Proxy n) of
             CopyError \<Rightarrow> (emptyProxyConfig z, Some CopyFailed)
           | CopyWrongType \<Rightarrow> (emptyProxyConfig z, Some FailedToCopyProxyConfig)
           | Copied cfg \<Rightarrow>
               (cfg\<lparr>Upstreams :=
                      map (defaultUpstreamNamespace (NamespaceOrDefault (ns_EnterpriseMeta n)))
                          (Upstreams cfg)\<rparr>,
                None)))"

text \<open>
  \<open>CompoundServiceID\<close> belongs to package \<open>structs\<close>; it is the parameter \<open>csid\<close>.
\<close>

definition Changed ::
  "('c ConnectProxyConfig \<Rightarrow> 'c ConnectProxyConfig copied) \<Rightarrow> 'c \<Rightarrow>
   ('c NodeService \<Rightarrow> ServiceID) \<Rightarrow>
   'c serviceInstance \<Rightarrow> 'c NodeService option \<Rightarrow> string \<Rightarrow> bool" where
  "Changed copy z csid i ns tok =
     (case ns of
        None \<Rightarrow> True
      | Some n \<Rightarrow>
          (let cfg = fst (copyProxyConfig copy z ns)
           in ns_Kind n \<noteq> kind i \<or>
              proxyID i \<noteq> csid n \<or>
              address i \<noteq> ns_Address n \<or>
              port i \<noteq> ns_Port n \<or>
              proxyCfg i \<noteq> cfg \<or>
              token i \<noteq> tok))"

section \<open>Package ae: pausing and resuming the syncer\<close>

text \<open>
  Durations are integers (nanoseconds). A channel made by \<open>make(chan struct{})\<close> is a
  fresh number; \<open>nextChan\<close> counts the channels made so far. \<open>timerNextFullSync\<close> holds
  the duration given to the last \<open>time.After\<close>, counted from the moment it was set.
\<close>

record StateSyncer =
  Interval :: int
  paused :: int
  chPaused :: "nat option"
  serverUpInterval :: int
  retryFailInterval :: int
  timerNextFullSync :: "int option"
  nextChan :: nat

definition second :: int where
  "second = 1000000000"

definition serverUpIntv :: int where
  "serverUpIntv = 3 * second"

definition retryFailIntv :: int where
  "retryFailIntv = 15 * second"

definition NewStateSyncer :: "int \<Rightarrow> StateSyncer" where
  "NewStateSyncer intv =
     \<lparr>Interval = intv, paused = 0, chPaused = None,
      serverUpInterval = serverUpIntv, retryFailInterval = retryFailIntv,
      timerNextFullSync = None, nextChan = 0\<rparr>"

datatype ae_effect =
    CloseChan nat
  | TriggerSyncChanges
  | ScheduleNextFullSync int
  | CallSyncFull
  | LogSyncFullFailed

datatype panic = UnbalancedPauseResume | CloseOfNilChannel

definition Pause :: "StateSyncer \<Rightarrow> StateSyncer" where
  "Pause s =
     (let s1 = s\<lparr>paused := paused s + 1\<rparr>
      in if chPaused s1 = None
         then s1\<lparr>chPaused := Some (nextChan s1), nextChan := Suc (nextChan s1)\<rparr>
         else s1)"

definition isPaused :: "StateSyncer \<Rightarrow> bool" where
  "isPaused s = (paused s \<noteq> 0)"

text \<open>
  \<open>Resume\<close> returns the new state, the boolean it returns in Go, and the effects it
  has outside the syncer's own fields, in order. Its two panics are errors.
\<close>

definition Resume :: "StateSyncer \<Rightarrow> panic + (StateSyncer \<times> bool \<times> ae_effect list)" where
  "Resume s =
     (let s1 = s\<lparr>paused := paused s - 1\<rparr>
      in if paused s1 < 0 then Inl UnbalancedPauseResume
         else let resumed = (paused s1 = 0)
              in if resumed
                 then (case chPaused s1 of
                         None \<Rightarrow> Inl CloseOfNilChannel
                       | Some c \<Rightarrow>
                           Inr (s1\<lparr>chPaused := None\<rparr>, resumed,
                                [CloseChan c, TriggerSyncChanges]))
                 else Inr (s1, resumed, []))"

definition WaitResume :: "StateSyncer \<Rightarrow> nat option" where
  "WaitResume s = chPaused s"

datatype call = CallPause | CallResume

text \<open>A sequence of calls, run from left to right, with the effects collected.\<close>

fun calls :: "call list \<Rightarrow> StateSyncer \<times> ae_effect list \<Rightarrow>
              panic + (StateSyncer \<times> ae_effect list)" where
  "calls [] st = Inr st"
| "calls (CallPause # cs) (s, out) = calls cs (Pause s, out)"
| "calls (CallResume # cs) (s, out) =
     (case Resume s of
        Inl e \<Rightarrow> Inl e
      | Inr (s', r, effs) \<Rightarrow> calls cs (s', out @ effs))"

definition pauses :: "call list \<Rightarrow> nat" where
  "pauses cs = count_list cs CallPause"

definition resumes :: "call list \<Rightarrow> nat" where
  "resumes cs = count_list cs CallResume"

text \<open>At no point of the sequence have there been more calls of Resume than of Pause.\<close>

definition never_outnumbers :: "call list \<Rightarrow> bool" where
  "never_outnumbers cs = (\<forall>k\<le>length cs. resumes (take k cs) \<le> pauses (take k cs))"

section \<open>Package ae: the full-sync routine\<close>

text \<open>
  What \<open>fullSync\<close> reads from outside the syncer: the value of the \<open>k\<close>-th call of
  \<open>Delayer.Jitter\<close> on a duration, whether the \<open>k\<close>-th call of \<open>State.SyncFull\<close>
  fails, and which case the \<open>k\<close>-th \<open>select\<close> takes.
\<close>

datatype selected = DelayElapsed | SyncFullTriggered | ShutdownClosed

record environment =
  Jitter :: "nat \<Rightarrow> int \<Rightarrow> int"
  SyncFull_fails :: "nat \<Rightarrow> bool"
  selects :: "nat \<Rightarrow> selected"

record run_state =
  syncer :: StateSyncer
  jitterCalls :: nat
  syncFullCalls :: nat
  selectCalls :: nat
  effects :: "ae_effect list"

datatype sync_result = Returned_nil | Returned_errShutdown

definition jitter :: "environment \<Rightarrow> int \<Rightarrow> run_state \<Rightarrow> int \<times> run_state" where
  "jitter env d r = (Jitter env (jitterCalls r) d, r\<lparr>jitterCalls := Suc (jitterCalls r)\<rparr>)"

definition retryDelay :: "environment \<Rightarrow> run_state \<Rightarrow> int \<times> run_state" where
  "retryDelay env r =
     (let (j, r1) = jitter env (retryFailInterval (syncer r)) r
      in (retryFailInterval (syncer r) + j, r1))"

definition schedule_next :: "environment \<Rightarrow> run_state \<Rightarrow> run_state" where
  "schedule_next env r =
     (let (j, r1) = jitter env (Interval (syncer r)) r;
          d = Interval (syncer r) + j
      in r1\<lparr>syncer := (syncer r1)\<lparr>timerNextFullSync := Some d\<rparr>,
             effects := effects r1 @ [ScheduleNextFullSync d]\<rparr>)"

definition call_SyncFull :: "environment \<Rightarrow> run_state \<Rightarrow> bool \<times> run_state" where
  "call_SyncFull env r =
     (SyncFull_fails env (syncFullCalls r),
      r\<lparr>syncFullCalls := Suc (syncFullCalls r), effects := effects r @ [CallSyncFull]\<rparr>)"

text \<open>
  The loop of \<open>fullSync\<close>. It may run for ever (a syncer that stays paused retries
  without end), so the first argument bounds the number of passes through the loop
  body; \<open>None\<close> means that the bound was reached before the function returned.
\<close>

fun fullSync :: "nat \<Rightarrow> environment \<Rightarrow> run_state \<Rightarrow> int \<Rightarrow> (sync_result \<times> run_state) option" where
  "fullSync 0 env r delay = None"
| "fullSync (Suc n) env r delay =
     (if delay = 0
      then (let r1 = schedule_next env r
            in if isPaused (syncer r1)
               then (let (d, r2) = retryDelay env r1 in fullSync n env r2 d)
               else (let (failed, r2) = call_SyncFull env r1
                     in if failed
                        then (let (d, r3) = retryDelay env
                                              (r2\<lparr>effects := effects r2 @ [LogSyncFullFailed]\<rparr>)
                              in fullSync n env r3 d)
                        else Some (Returned_nil, r2)))
      else (let r1 = r\<lparr>selectCalls := Suc (selectCalls r)\<rparr>
            in case selects env (selectCalls r) of
                 DelayElapsed \<Rightarrow> fullSync n env r1 0
               | SyncFullTriggered \<Rightarrow>
                   (let (d, r2) = jitter env (serverUpInterval (syncer r1)) r1
                    in fullSync n env r2 d)
               | ShutdownClosed \<Rightarrow> Some (Returned_errShutdown, r1)))"

text \<open>
  The invariant of the pause counter after the calls \<open>cs\<close>: it is the number of
  pauses less the number of resumes, and the channel exists exactly while it is not zero.
\<close>

definition syncer_inv :: "call list \<Rightarrow> StateSyncer \<Rightarrow> bool" where
  "syncer_inv cs s =
     (paused s = int (pauses cs) - int (resumes cs) \<and> (chPaused s = None) = (paused s = 0))"

text \<open>A concrete environment and start state, for running the model.\<close>

definition env0 :: environment where
  "env0 = \<lparr>Jitter = (\<lambda>k d. d div 2), SyncFull_fails = (\<lambda>k. k = 0),
            selects = (\<lambda>k. DelayElapsed)\<rparr>"

definition start :: "StateSyncer \<Rightarrow> run_state" where
  "start s = \<lparr>syncer = s, jitterCalls = 0, syncFullCalls = 0, selectCalls = 0, effects = []\<rparr>"

section \<open>Package proxycfg: watches and their effects\<close>

text \<open>
  The kinds of cache request the handlers issue, one per cache type name used in the
  source. A call of \<open>Notify\<close> is logged with the handle of the context it was given,
  its kind, its correlation id and, for a leaf request, the DNS SANs it carries; a call
  of a cancel function is logged with its handle. Whether a call of \<open>Notify\<close> on a
  correlation id returns an error is decided by the cache, a field of the handler.
\<close>

datatype watch_kind =
    HealthServices
  | IntentionMatch
  | ConnectCALeaf
  | ResolvedServiceConfig
  | ConfigEntries
  | CompiledDiscoveryChain

datatype effect =
    Notify nat watch_kind string "string list"
  | Cancel nat
  | Warn string

record world =
  nextCtx :: nat
  effects_log :: "effect list"

record DNSConfig =
  dns_Domain :: string
  dns_AltDomain :: string

record 'c handlerState =
  source_Datacenter :: string
  dnsConfig :: DNSConfig
  instance_of :: "'c serviceInstance"
  cache_Notify :: "string \<Rightarrow> bool"
  health_Notify :: "string \<Rightarrow> bool"

definition leafWatchID :: string where
  "leafWatchID = ''leaf''"

text \<open>\<open>context.WithCancel\<close>: a fresh handle.\<close>

definition WithCancel :: "world \<Rightarrow> nat \<times> world" where
  "WithCancel w = (nextCtx w, w\<lparr>nextCtx := Suc (nextCtx w)\<rparr>)"

definition emit :: "effect \<Rightarrow> world \<Rightarrow> world" where
  "emit e w = w\<lparr>effects_log := effects_log w @ [e]\<rparr>"

section \<open>Package proxycfg: the ingress gateway's leaf certificate\<close>

record IngressListenerKey =
  Protocol :: string
  Port :: int

text \<open>
  The fields of the ingress-gateway snapshot that the leaf watch reads and writes.
  \<open>Upstreams\<close> is a Go map from listener keys to upstream lists.
\<close>

record 'c configSnapshotIngressGateway =
  TLSEnabled :: bool
  TLSSet :: bool
  Hosts :: "string list"
  HostsSet :: bool
  ig_Upstreams :: "(IngressListenerKey \<times> 'c Upstream list) list"
  LeafCertWatchCancel :: "nat option"

text \<open>
  The keys of the local map \<open>namespaces\<close> of \<open>generateIngressDNSSANs\<close>. Go ranges over
  a map in an order it does not fix: the order is an argument of the model, and
  \<open>is_range_order\<close> says that it visits every key once.
\<close>

definition namespaces :: "'c configSnapshotIngressGateway \<Rightarrow> string set" where
  "namespaces snap = set (map DestinationNamespace (concat (map snd (ig_Upstreams snap))))"

definition is_range_order :: "'k list \<Rightarrow> 'k set \<Rightarrow> bool" where
  "is_range_order ks S = (distinct ks \<and> set ks = S)"

definition ingress_names_for :: "'c handlerState \<Rightarrow> string \<Rightarrow> string list" where
  "ingress_names_for s ns0 =
     (let ns = (if ns0 = IntentionDefaultNamespace then [] else ns0 @ ''.'')
      in [''*.ingress.'' @ ns @ dns_Domain (dnsConfig s),
          ''*.ingress.'' @ ns @ source_Datacenter s @ ''.'' @ dns_Domain (dnsConfig s)]
         @ (if dns_AltDomain (dnsConfig s) \<noteq> []
            then [''*.ingress.'' @ ns @ dns_AltDomain (dnsConfig s),
                  ''*.ingress.'' @ ns @ source_Datacenter s @ ''.'' @ dns_AltDomain (dnsConfig s)]
            else []))"

definition generateIngressDNSSANs ::
  "'c handlerState \<Rightarrow> string list \<Rightarrow> 'c configSnapshotIngressGateway \<Rightarrow> string list" where
  "generateIngressDNSSANs s order snap =
     (if \<not> TLSEnabled snap then []
      else fold (\<lambda>ns dnsNames. dnsNames @ ingress_names_for s ns) order [] @ Hosts snap)"

definition watchIngressLeafCert ::
  "'c handlerState \<Rightarrow> string list \<Rightarrow> 'c configSnapshotIngressGateway \<times> world \<Rightarrow>
   ('c configSnapshotIngressGateway \<times> world) \<times> bool" where
  "watchIngressLeafCert s order sw =
     (let (snap, w) = sw
      in if \<not> TLSSet snap \<or> \<not> HostsSet snap then (sw, False)
         else let w1 = (case LeafCertWatchCancel snap of
                          None \<Rightarrow> w
                        | Some c \<Rightarrow> emit (Cancel c) w);
                  (cancel, w2) = WithCancel w1;
                  w3 = emit (Notify cancel ConnectCALeaf leafWatchID
                               (generateIngressDNSSANs s order snap)) w2
              in if cache_Notify s leafWatchID
                 then ((snap, emit (Cancel cancel) w3), True)
                 else ((snap\<lparr>LeafCertWatchCancel := Some cancel\<rparr>, w3), False))"

text \<open>The handler of the fifth end-to-end scenario of the specification.\<close>

definition scenario5_handler :: "unit handlerState" where
  "scenario5_handler =
     \<lparr>source_Datacenter = ''dc1'',
      dnsConfig = \<lparr>dns_Domain = ''consul'', dns_AltDomain = ''example.com''\<rparr>,
      instance_of =
        \<lparr>kind = ''ingress-gateway'', service = ''ingress'',
         proxyID = \<lparr>sid_ID = ''ingress'', sid_EnterpriseMeta = \<lparr>Namespace = ''default''\<rparr>\<rparr>,
         address = ''10.0.0.5'', port = 8443, proxyCfg = emptyProxyConfig (), token = ''t''\<rparr>,
      cache_Notify = (\<lambda>cid. False),
      health_Notify = (\<lambda>cid. False)\<rparr>"

definition scenario5_snapshot :: "unit configSnapshotIngressGateway" where
  "scenario5_snapshot =
     \<lparr>TLSEnabled = True, TLSSet = True, Hosts = [''api.example.com''], HostsSet = True,
      ig_Upstreams =
        [(\<lparr>Protocol = ''http'', Port = 8080\<rparr>,
          [\<lparr>DestinationType = [], DestinationNamespace = ''web'', DestinationName = ''api'',
            us_Datacenter = [], us_MeshGateway = [], us_Config = (),
            CentrallyConfigured = False\<rparr>])],
      LeafCertWatchCancel = Some 3\<rparr>"

section \<open>Package proxycfg: hostname endpoints\<close>

text \<open>
  The fields of a \<open>CheckServiceNode\<close> that \<open>hostnameEndpoints\<close> reads. The method
  \<open>BestAddress\<close> of package \<open>structs\<close> and \<open>net.ParseIP\<close> are arguments of the model:
  \<open>BestAddress wan n\<close> is the address chosen for \<open>n\<close>, and \<open>ParseIP a\<close> holds when
  \<open>net.ParseIP\<close> does not return nil.
\<close>

record CheckServiceNode =
  Node_Datacenter :: string
  Node_Address :: string
  Service_Name :: string
  Service_Address :: string
  Service_Port :: int
  Service_WanAddress :: string

datatype go_panic = IndexOutOfRange

definition classify ::
  "(string \<Rightarrow> bool) \<Rightarrow> (bool \<Rightarrow> CheckServiceNode \<Rightarrow> string \<times> int) \<Rightarrow> string \<Rightarrow>
   CheckServiceNode \<Rightarrow> bool \<times> bool \<times> CheckServiceNode list \<Rightarrow>
   bool \<times> bool \<times> CheckServiceNode list" where
  "classify ParseIP BestAddress localDC n acc =
     (let (hasIP, hasHostname, resp) = acc;
          (addr, _) = BestAddress (localDC \<noteq> Node_Datacenter n) n
      in if ParseIP addr then (True, hasHostname, resp)
         else (hasIP, True, resp @ [n]))"

text \<open>
  \<open>hostnameEndpoints\<close> returns the list and the warnings it logs. The read of
  \<open>nodes[0]\<close> panics on an empty list.
\<close>

definition hostnameEndpoints ::
  "(string \<Rightarrow> bool) \<Rightarrow> (bool \<Rightarrow> CheckServiceNode \<Rightarrow> string \<times> int) \<Rightarrow> string \<Rightarrow>
   CheckServiceNode list \<Rightarrow> go_panic + (CheckServiceNode list \<times> effect list)" where
  "hostnameEndpoints ParseIP BestAddress localDC nodes =
     (let (hasIP, hasHostname, resp) =
            fold (classify ParseIP BestAddress localDC) nodes (False, False, [])
      in if hasHostname \<and> hasIP
         then (case nodes of
                 [] \<Rightarrow> Inl IndexOutOfRange
               | n0 # _ \<Rightarrow>
                   Inr (resp,
                        [Warn (''service contains instances with mix of hostnames and IP addresses; only hostnames will be passed to Envoy''
                               @ '' dc='' @ Node_Datacenter n0 @ '' service='' @ Service_Name n0)]))
         else Inr (resp, []))"

text \<open>
  Instances of the two arguments, for running the model: an address is an IP address
  when it is four decimal fields of at most three digits and value at most 255,
  separated by dots; the best address is the service's WAN address when asked for and
  set, else the service's address, else the node's.
\<close>

fun split_dots :: "string \<Rightarrow> string list" where
  "split_dots [] = [[]]"
| "split_dots (c # cs) =
     (if c = CHR ''.'' then [] # split_dots cs
      else (case split_dots cs of [] \<Rightarrow> [[c]] | f # fs \<Rightarrow> (c # f) # fs))"

definition digit_value :: "char \<Rightarrow> nat option" where
  "digit_value c = map_of (zip ''0123456789'' [0, 1, 2, 3, 4, 5, 6, 7, 8, 9]) c"

fun decimal :: "nat \<Rightarrow> string \<Rightarrow> nat option" where
  "decimal acc [] = Some acc"
| "decimal acc (c # cs) =
     (case digit_value c of None \<Rightarrow> None | Some d \<Rightarrow> decimal (10 * acc + d) cs)"

definition ip_field :: "string \<Rightarrow> bool" where
  "ip_field f =
     (f \<noteq> [] \<and> length f \<le> 3 \<and> (case decimal 0 f of None \<Rightarrow> False | Some v \<Rightarrow> v \<le> 255))"

definition dotted_quad :: "string \<Rightarrow> bool" where
  "dotted_quad a = (length (split_dots a) = 4 \<and> list_all ip_field (split_dots a))"

definition simple_BestAddress :: "bool \<Rightarrow> CheckServiceNode \<Rightarrow> string \<times> int" where
  "simple_BestAddress wan n =
     (if wan \<and> Service_WanAddress n \<noteq> [] then (Service_WanAddress n, Service_Port n)
      else if Service_Address n \<noteq> [] then (Service_Address n, Service_Port n)
      else (Node_Address n, Service_Port n))"

definition ip_node :: CheckServiceNode where
  "ip_node = \<lparr>Node_Datacenter = ''dc1'', Node_Address = ''10.0.0.1'', Service_Name = ''api'',
              Service_Address = [], Service_Port = 8080, Service_WanAddress = []\<rparr>"

definition host_node :: CheckServiceNode where
  "host_node = \<lparr>Node_Datacenter = ''dc1'', Node_Address = ''10.0.0.2'', Service_Name = ''api'',
                Service_Address = ''host.example'', Service_Port = 8080,
                Service_WanAddress = []\<rparr>"

section \<open>Package proxycfg: the event loop of the assembler\<close>

text \<open>
  \<open>state.run\<close> is generic in the kind handler; the methods \<open>Valid\<close> and \<open>Clone\<close> of the
  snapshot are not part of the sources. The handler's \<open>handleUpdate\<close> (the snapshot after
  the update, and whether an error is returned), \<open>Valid\<close> and \<open>Clone\<close> (\<open>None\<close> when it
  returns an error) are the fields of \<open>snapshot_ops\<close>.
\<close>

record ('u, 'snap) snapshot_ops =
  handleUpdate :: "'u \<Rightarrow> 'snap \<Rightarrow> 'snap \<times> bool"
  Valid :: "'snap \<Rightarrow> bool"
  Clone :: "'snap \<Rightarrow> 'snap option"

definition coalesceTimeout :: int where
  "coalesceTimeout = 200 * 1000000"

text \<open>
  The variables of the loop. \<open>snapCh\<close> holds the contents of the outbound channel, whose
  capacity is 1. \<open>coalesceTimer\<close> is the pointer to the timer, nil or the number of a
  timer. A timer made by \<open>time.AfterFunc\<close> stands in \<open>sendCh_senders\<close> until the loop
  receives what its callback sends on the unbuffered \<open>sendCh\<close>.
\<close>

datatype 'snap loop_effect =
    AfterFunc nat int
  | Delivered 'snap
  | Replied nat "'snap option"
  | LogError string
  | LogTrace string
  | CloseSnapCh

record 'snap loop =
  loop_snap :: 'snap
  coalesceTimer :: "nat option"
  snapCh :: "'snap list"
  sendCh_senders :: "nat list"
  timersMade :: nat
  returned :: bool
  loop_out :: "'snap loop_effect list"

definition snapCh_capacity :: nat where
  "snapCh_capacity = 1"

definition start_loop :: "'snap \<Rightarrow> 'snap loop" where
  "start_loop s0 =
     \<lparr>loop_snap = s0, coalesceTimer = None, snapCh = [], sendCh_senders = [], timersMade = 0,
      returned = False, loop_out = []\<rparr>"

text \<open>
  The cases of the \<open>select\<close> of the loop, and the one step of the consumer that the loop
  can observe: a receive from the outbound channel.
\<close>

datatype 'u event =
    CtxDone
  | FromCh 'u
  | FromSendCh
  | FromReqCh nat
  | ConsumerReceives

definition say :: "'snap loop_effect \<Rightarrow> 'snap loop \<Rightarrow> 'snap loop" where
  "say e st = st\<lparr>loop_out := loop_out st @ [e]\<rparr>"

text \<open>\<open>coalesceTimer = time.AfterFunc(coalesceTimeout, func() { sendCh <- struct{}{} })\<close>\<close>

definition arm_timer :: "'snap loop \<Rightarrow> 'snap loop" where
  "arm_timer st =
     say (AfterFunc (timersMade st) coalesceTimeout)
       (st\<lparr>coalesceTimer := Some (timersMade st),
           sendCh_senders := sendCh_senders st @ [timersMade st],
           timersMade := Suc (timersMade st)\<rparr>)"

text \<open>The end of the loop body, reached only from the update case without an error.\<close>

definition after_select :: "('u, 'snap) snapshot_ops \<Rightarrow> 'snap loop \<Rightarrow> 'snap loop" where
  "after_select h st =
     (if Valid h (loop_snap st)
      then (if coalesceTimer st = None then arm_timer st else st)
      else st)"

text \<open>
  One pass through the loop for the event taken, or one receive by the consumer. The
  result is \<open>None\<close> when the event cannot happen in the state: the loop has returned, no
  callback is sending on \<open>sendCh\<close>, or the outbound channel is empty.
\<close>

fun run_step :: "('u, 'snap) snapshot_ops \<Rightarrow> 'u event \<Rightarrow> 'snap loop \<Rightarrow> 'snap loop option" where
  "run_step h ConsumerReceives st =
     (case snapCh st of [] \<Rightarrow> None | x # xs \<Rightarrow> Some (st\<lparr>snapCh := xs\<rparr>))"
| "run_step h CtxDone st =
     (if returned st then None else Some (say CloseSnapCh (st\<lparr>returned := True\<rparr>)))"
| "run_step h (FromCh u) st =
     (if returned st then None
      else let (snap', err) = handleUpdate h u (loop_snap st);
               st1 = st\<lparr>loop_snap := snap'\<rparr>
           in if err then Some (say (LogError ''Failed to handle update from watch'') st1)
              else Some (after_select h st1))"
| "run_step h FromSendCh st =
     (if returned st then None
      else case sendCh_senders st of
             [] \<Rightarrow> None
           | t # ts \<Rightarrow>
               (let st1 = st\<lparr>sendCh_senders := ts\<rparr>
                in case Clone h (loop_snap st1) of
                     None \<Rightarrow> Some (say (LogError ''Failed to copy config snapshot for proxy'') st1)
                   | Some snapCopy \<Rightarrow>
                       if length (snapCh st1) < snapCh_capacity
                       then Some (say (Delivered snapCopy)
                                    (st1\<lparr>snapCh := snapCh st1 @ [snapCopy],
                                         coalesceTimer := None\<rparr>))
                       else (let st2 = say (LogTrace ''Failed to deliver new snapshot to proxy config watchers'') st1
                             in Some (if coalesceTimer st2 = None then arm_timer st2 else st2))))"
| "run_step h (FromReqCh replyCh) st =
     (if returned st then None
      else if Valid h (loop_snap st) then
             (case Clone h (loop_snap st) of
                None \<Rightarrow> Some (say (LogError ''Failed to copy config snapshot for proxy'') st)
              | Some snapCopy \<Rightarrow> Some (say (Replied replyCh (Some snapCopy)) st))
           else Some (say (Replied replyCh None) st))"

fun run :: "('u, 'snap) snapshot_ops \<Rightarrow> 'u event list \<Rightarrow> 'snap loop \<Rightarrow> 'snap loop option" where
  "run h [] st = Some st"
| "run h (e # es) st = (case run_step h e st of None \<Rightarrow> None | Some st' \<Rightarrow> run h es st')"

text \<open>
  An instance for running the loop: the snapshot is the list of the updates applied, it
  is valid once it is not empty, and cloning succeeds.
\<close>

definition list_ops :: "(nat, nat list) snapshot_ops" where
  "list_ops = \<lparr>handleUpdate = (\<lambda>u s. (s @ [u], False)), Valid = (\<lambda>s. s \<noteq> []), Clone = Some\<rparr>"


text \<open>
  The invariant of the loop: at most one callback is sending on \<open>sendCh\<close>, and none
  while the timer pointer is nil.
\<close>

definition timer_inv :: "'snap loop \<Rightarrow> bool" where
  "timer_inv st =
     (length (sendCh_senders st) \<le> 1 \<and> (coalesceTimer st \<noteq> None \<or> sendCh_senders st = []))"

text \<open>No callback is sending and the timer pointer is not nil: the loop waits in vain.\<close>

definition starved :: "'snap loop \<Rightarrow> bool" where
  "starved st = (sendCh_senders st = [] \<and> (\<exists>t. coalesceTimer st = Some t))"

section \<open>Package proxycfg: sequencing with early return\<close>

text \<open>
  A handler mutates the snapshot through a pointer and may return an error half way:
  the model of a handler returns the snapshot and the world as they are at the return,
  with the error if there is one. \<open>steps\<close> runs a list of such actions and stops at the
  first error, as the \<open>return err\<close> inside a Go loop does.
\<close>

datatype handler_error =
    ErrorFillingAgentCache
  | InvalidTypeForResponse
  | NotifyFailed string
  | UnsupportedKind string
  | NilPointerDereference

fun steps :: "('st \<Rightarrow> 'st \<times> handler_error option) list \<Rightarrow> 'st \<Rightarrow> 'st \<times> handler_error option" where
  "steps [] st = (st, None)"
| "steps (f # fs) st =
     (case f st of
        (st', None) \<Rightarrow> steps fs st'
      | (st', Some e) \<Rightarrow> (st', Some e))"

text \<open>
  \<open>ctx, cancel := context.WithCancel(ctx)\<close> followed by a call of \<open>Notify\<close> with that
  context: the call is logged; when it fails the new context is cancelled.
\<close>

definition start_watch ::
  "(string \<Rightarrow> bool) \<Rightarrow> watch_kind \<Rightarrow> string \<Rightarrow> world \<Rightarrow> (nat \<times> world) \<times> bool" where
  "start_watch notify k cid w =
     (let (cancel, w1) = WithCancel w;
          w2 = emit (Notify cancel k cid []) w1
      in if notify cid then ((cancel, emit (Cancel cancel) w2), True)
         else ((cancel, w2), False))"

definition map_keys :: "('k \<times> 'v) list \<Rightarrow> 'k set" where
  "map_keys m = fst ` set m"

section \<open>Package proxycfg: the terminating gateway's linked services\<close>

record ServiceName =
  sn_Name :: string
  sn_EnterpriseMeta :: EnterpriseMeta

record GatewayService =
  gs_Service :: ServiceName
  gs_Port :: int
  gs_Protocol :: string
  gs_Hosts :: "string list"

text \<open>
  The terminating-gateway body of the snapshot. The payloads that the handler stores
  without reading them (intentions, certificates, configurations, resolvers) have the
  type \<open>'p\<close>.
\<close>

record 'p configSnapshotTerminatingGateway =
  WatchedServices :: "(ServiceName \<times> nat) list"
  WatchedIntentions :: "(ServiceName \<times> nat) list"
  Intentions :: "(ServiceName \<times> 'p) list"
  WatchedLeaves :: "(ServiceName \<times> nat) list"
  ServiceLeaves :: "(ServiceName \<times> 'p) list"
  WatchedConfigs :: "(ServiceName \<times> nat) list"
  ServiceConfigs :: "(ServiceName \<times> 'p) list"
  WatchedResolvers :: "(ServiceName \<times> nat) list"
  ServiceResolvers :: "(ServiceName \<times> 'p) list"
  ServiceResolversSet :: "(ServiceName \<times> bool) list"
  ServiceGroups :: "(ServiceName \<times> CheckServiceNode list) list"
  GatewayServices :: "(ServiceName \<times> GatewayService) list"
  HostnameServices :: "(ServiceName \<times> CheckServiceNode list) list"

definition gatewayServicesWatchID :: string where
  "gatewayServicesWatchID = ''gateway-services''"

definition externalServiceIDPrefix :: string where
  "externalServiceIDPrefix = ''external-service:''"

definition serviceLeafIDPrefix :: string where
  "serviceLeafIDPrefix = ''service-leaf:''"

definition serviceConfigIDPrefix :: string where
  "serviceConfigIDPrefix = ''service-config:''"

definition serviceResolverIDPrefix :: string where
  "serviceResolverIDPrefix = ''service-resolver:''"

definition serviceIntentionsIDPrefix :: string where
  "serviceIntentionsIDPrefix = ''service-intentions:''"

text \<open>
  For every linked service the handler keeps five watches. The five blocks of code that
  open them, and the five loops that cancel them, differ only in the map of cancel
  functions, the notifier, the cache type, the prefix of the correlation id and the
  mirrored entries; these are tabulated here, in the order of the source.
\<close>

datatype tg_watch =
    ExternalService
  | ServiceIntentions
  | ServiceLeaf
  | ServiceConfig
  | ServiceResolver

fun watched :: "tg_watch \<Rightarrow> 'p configSnapshotTerminatingGateway \<Rightarrow> (ServiceName \<times> nat) list" where
  "watched ExternalService snap = WatchedServices snap"
| "watched ServiceIntentions snap = WatchedIntentions snap"
| "watched ServiceLeaf snap = WatchedLeaves snap"
| "watched ServiceConfig snap = WatchedConfigs snap"
| "watched ServiceResolver snap = WatchedResolvers snap"

fun set_watched :: "tg_watch \<Rightarrow> (ServiceName \<times> nat) list \<Rightarrow>
                    'p configSnapshotTerminatingGateway \<Rightarrow> 'p configSnapshotTerminatingGateway" where
  "set_watched ExternalService m snap = snap\<lparr>WatchedServices := m\<rparr>"
| "set_watched ServiceIntentions m snap = snap\<lparr>WatchedIntentions := m\<rparr>"
| "set_watched ServiceLeaf m snap = snap\<lparr>WatchedLeaves := m\<rparr>"
| "set_watched ServiceConfig m snap = snap\<lparr>WatchedConfigs := m\<rparr>"
| "set_watched ServiceResolver m snap = snap\<lparr>WatchedResolvers := m\<rparr>"

fun watch_prefix :: "tg_watch \<Rightarrow> string" where
  "watch_prefix ExternalService = externalServiceIDPrefix"
| "watch_prefix ServiceIntentions = serviceIntentionsIDPrefix"
| "watch_prefix ServiceLeaf = serviceLeafIDPrefix"
| "watch_prefix ServiceConfig = serviceConfigIDPrefix"
| "watch_prefix ServiceResolver = serviceResolverIDPrefix"

fun watch_cache_type :: "tg_watch \<Rightarrow> watch_kind" where
  "watch_cache_type ExternalService = HealthServices"
| "watch_cache_type ServiceIntentions = IntentionMatch"
| "watch_cache_type ServiceLeaf = ConnectCALeaf"
| "watch_cache_type ServiceConfig = ResolvedServiceConfig"
| "watch_cache_type ServiceResolver = ConfigEntries"

fun watch_notifier :: "'c handlerState \<Rightarrow> tg_watch \<Rightarrow> string \<Rightarrow> bool" where
  "watch_notifier s ExternalService = health_Notify s"
| "watch_notifier s ServiceIntentions = cache_Notify s"
| "watch_notifier s ServiceLeaf = cache_Notify s"
| "watch_notifier s ServiceConfig = cache_Notify s"
| "watch_notifier s ServiceResolver = cache_Notify s"

text \<open>The entries deleted together with the cancel function of a watch.\<close>

fun purge_mirrored :: "tg_watch \<Rightarrow> ServiceName \<Rightarrow>
                       'p configSnapshotTerminatingGateway \<Rightarrow> 'p configSnapshotTerminatingGateway" where
  "purge_mirrored ExternalService sn snap =
     snap\<lparr>ServiceGroups := AList.delete sn (ServiceGroups snap)\<rparr>"
| "purge_mirrored ServiceLeaf sn snap =
     snap\<lparr>ServiceLeaves := AList.delete sn (ServiceLeaves snap)\<rparr>"
| "purge_mirrored ServiceConfig sn snap =
     snap\<lparr>ServiceConfigs := AList.delete sn (ServiceConfigs snap)\<rparr>"
| "purge_mirrored ServiceResolver sn snap =
     snap\<lparr>ServiceResolvers := AList.delete sn (ServiceResolvers snap),
          ServiceResolversSet := AList.delete sn (ServiceResolversSet snap)\<rparr>"
| "purge_mirrored ServiceIntentions sn snap =
     snap\<lparr>Intentions := AList.delete sn (Intentions snap)\<rparr>"

text \<open>
  \<open>if _, ok := snap.TerminatingGateway.Watched...[svc.Service]; !ok { ... }\<close>: open
  the watch unless the map has the service; \<open>str\<close> is \<open>ServiceName.String\<close> of package
  \<open>structs\<close>.
\<close>

definition ensure_watch ::
  "'c handlerState \<Rightarrow> (ServiceName \<Rightarrow> string) \<Rightarrow> ServiceName \<Rightarrow> tg_watch \<Rightarrow>
   'p configSnapshotTerminatingGateway \<times> world \<Rightarrow>
   ('p configSnapshotTerminatingGateway \<times> world) \<times> handler_error option" where
  "ensure_watch s str sn i sw =
     (let (snap, w) = sw
      in case map_of (watched i snap) sn of
           Some _ \<Rightarrow> (sw, None)
         | None \<Rightarrow>
             (let cid = watch_prefix i @ str sn;
                  ((cancel, w'), failed) = start_watch (watch_notifier s i) (watch_cache_type i) cid w
              in if failed then ((snap, w'), Some (NotifyFailed cid))
                 else ((set_watched i (AList.update sn cancel (watched i snap)) snap, w'), None)))"

text \<open>The body of the loop over the delivered services.\<close>

definition store_gateway_service ::
  "GatewayService \<Rightarrow> 'p configSnapshotTerminatingGateway \<times> world \<Rightarrow>
   ('p configSnapshotTerminatingGateway \<times> world) \<times> handler_error option" where
  "store_gateway_service svc sw =
     (let (snap, w) = sw
      in ((snap\<lparr>GatewayServices := AList.update (gs_Service svc) svc (GatewayServices snap)\<rparr>, w),
          None))"

definition watch_linked_service ::
  "'c handlerState \<Rightarrow> (ServiceName \<Rightarrow> string) \<Rightarrow> GatewayService \<Rightarrow>
   'p configSnapshotTerminatingGateway \<times> world \<Rightarrow>
   ('p configSnapshotTerminatingGateway \<times> world) \<times> handler_error option" where
  "watch_linked_service s str svc =
     steps (store_gateway_service svc
            # map (ensure_watch s str (gs_Service svc))
                  [ExternalService, ServiceIntentions, ServiceLeaf, ServiceConfig,
                   ServiceResolver])"

text \<open>
  \<open>for sn := range m { if _, ok := svcMap[sn]; !ok { delete(m, sn) } }\<close>, for the two
  maps without cancel functions.
\<close>

definition delete_absent :: "ServiceName set \<Rightarrow> (ServiceName \<times> 'v) list \<Rightarrow> (ServiceName \<times> 'v) list" where
  "delete_absent svcMap m =
     fold (\<lambda>(sn, _) m'. if sn \<in> svcMap then m' else AList.delete sn m') m m"

text \<open>
  \<open>for sn, cancelFn := range watched { if _, ok := svcMap[sn]; !ok { delete(watched, sn);
  delete(mirrored, sn); cancelFn() } }\<close>
\<close>

definition cancel_absent ::
  "ServiceName set \<Rightarrow> tg_watch \<Rightarrow> 'p configSnapshotTerminatingGateway \<times> world \<Rightarrow>
   'p configSnapshotTerminatingGateway \<times> world" where
  "cancel_absent svcMap i sw =
     fold (\<lambda>(sn, cancelFn) (snap, w).
             if sn \<in> svcMap then (snap, w)
             else (purge_mirrored i sn (set_watched i (AList.delete sn (watched i snap)) snap),
                   emit (Cancel cancelFn) w))
          (watched i (fst sw)) sw"

text \<open>
  The results a cache delivers to the handlers modelled here, by the type that the
  handler asserts.
\<close>

datatype update_result =
    IndexedGatewayServices "GatewayService list"
  | IndexedServiceList "ServiceName list"
  | OtherResult

record UpdateEvent =
  CorrelationID :: string
  Result :: update_result
  Err :: bool

text \<open>
  \<open>handlerTerminatingGateway.handleUpdate\<close> on an event whose correlation id is
  \<open>gatewayServicesWatchID\<close>: the error check, the type assertion and the case of the
  switch for that id. The other cases of the switch are not modelled; an event with
  another id is outside the domain of this definition and is answered with \<open>None\<close>.
\<close>

definition handleUpdate_gatewayServices ::
  "'c handlerState \<Rightarrow> (ServiceName \<Rightarrow> string) \<Rightarrow> UpdateEvent \<Rightarrow>
   'p configSnapshotTerminatingGateway \<times> world \<Rightarrow>
   (('p configSnapshotTerminatingGateway \<times> world) \<times> handler_error option) option" where
  "handleUpdate_gatewayServices s str u sw =
     (if Err u then Some (sw, Some ErrorFillingAgentCache)
      else if CorrelationID u = gatewayServicesWatchID then
        (case Result u of
           IndexedGatewayServices services \<Rightarrow>
             (case steps (map (watch_linked_service s str) services) sw of
                (sw1, Some e) \<Rightarrow> Some (sw1, Some e)
              | ((snap1, w1), None) \<Rightarrow>
                  (let svcMap = set (map gs_Service services);
                       snap2 = snap1\<lparr>GatewayServices := delete_absent svcMap (GatewayServices snap1)\<rparr>;
                       snap3 = snap2\<lparr>HostnameServices := delete_absent svcMap (HostnameServices snap2)\<rparr>;
                       sw4 = cancel_absent svcMap ExternalService (snap3, w1);
                       sw5 = cancel_absent svcMap ServiceLeaf sw4;
                       sw6 = cancel_absent svcMap ServiceConfig sw5;
                       sw7 = cancel_absent svcMap ServiceResolver sw6;
                       sw8 = cancel_absent svcMap ServiceIntentions sw7
                   in Some (sw8, None)))
         | _ \<Rightarrow> Some (sw, Some InvalidTypeForResponse))
      else None)"

text \<open>
  Notions for stating what the loops do: the mirrored entries of several services purged
  in turn, the entries of a map whose key is not in the delivered set, and the cancel
  effects for those entries.
\<close>

definition purge_all :: "tg_watch \<Rightarrow> ServiceName list \<Rightarrow>
     'p configSnapshotTerminatingGateway \<Rightarrow> 'p configSnapshotTerminatingGateway" where
  "purge_all i ks snap = fold (purge_mirrored i) ks snap"

definition absent_entries :: "ServiceName set \<Rightarrow> (ServiceName \<times> 'v) list \<Rightarrow> (ServiceName \<times> 'v) list" where
  "absent_entries S m = filter (\<lambda>(k, v). k \<notin> S) m"

text \<open>
  What the loop over the delivered services may do to a snapshot and a world: it keeps
  every cancel function it finds, adds entries only for services of \<open>S\<close>, justifies
  every entry it adds by a call of \<open>Notify\<close>, and leaves the mirrored data alone.
\<close>

definition data_unchanged ::
  "'p configSnapshotTerminatingGateway \<Rightarrow> 'p configSnapshotTerminatingGateway \<Rightarrow> bool" where
  "data_unchanged x y =
     (Intentions y = Intentions x \<and> ServiceLeaves y = ServiceLeaves x
      \<and> ServiceConfigs y = ServiceConfigs x \<and> ServiceResolvers y = ServiceResolvers x
      \<and> ServiceResolversSet y = ServiceResolversSet x \<and> ServiceGroups y = ServiceGroups x
      \<and> HostnameServices y = HostnameServices x)"

definition opens_only ::
  "(ServiceName \<Rightarrow> string) \<Rightarrow> ServiceName set \<Rightarrow>
   'p configSnapshotTerminatingGateway \<times> world \<Rightarrow>
   'p configSnapshotTerminatingGateway \<times> world \<Rightarrow> bool" where
  "opens_only str S sw sw' =
     (\<exists>new. effects_log (snd sw') = effects_log (snd sw) @ new
        \<and> (\<forall>j k c. map_of (watched j (fst sw)) k = Some c
                    \<longrightarrow> map_of (watched j (fst sw')) k = Some c)
        \<and> (\<forall>j. map_keys (watched j (fst sw')) \<subseteq> map_keys (watched j (fst sw)) \<union> S)
        \<and> (\<forall>j k. k \<notin> map_keys (watched j (fst sw)) \<longrightarrow> k \<in> map_keys (watched j (fst sw'))
                  \<longrightarrow> (\<exists>h. map_of (watched j (fst sw')) k = Some h
                           \<and> Notify h (watch_cache_type j) (watch_prefix j @ str k) [] \<in> set new))
        \<and> data_unchanged (fst sw) (fst sw')
        \<and> map_keys (GatewayServices (fst sw)) \<subseteq> map_keys (GatewayServices (fst sw'))
        \<and> map_keys (GatewayServices (fst sw')) \<subseteq> map_keys (GatewayServices (fst sw)) \<union> S)"

text \<open>The service has an entry in the gateway-services map and in the five maps of watches.\<close>

definition fully_watched :: "ServiceName \<Rightarrow> 'p configSnapshotTerminatingGateway \<Rightarrow> bool" where
  "fully_watched sn snap =
     (sn \<in> map_keys (GatewayServices snap) \<and> (\<forall>j. sn \<in> map_keys (watched j snap)))"

text \<open>The keys of the entries mirrored for a watch.\<close>

fun mirrored_keys :: "tg_watch \<Rightarrow> 'p configSnapshotTerminatingGateway \<Rightarrow> ServiceName set" where
  "mirrored_keys ExternalService x = map_keys (ServiceGroups x)"
| "mirrored_keys ServiceIntentions x = map_keys (Intentions x)"
| "mirrored_keys ServiceLeaf x = map_keys (ServiceLeaves x)"
| "mirrored_keys ServiceConfig x = map_keys (ServiceConfigs x)"
| "mirrored_keys ServiceResolver x =
     map_keys (ServiceResolvers x) \<union> map_keys (ServiceResolversSet x)"

definition cancels_of :: "ServiceName set \<Rightarrow> (ServiceName \<times> nat) list \<Rightarrow> effect list" where
  "cancels_of S m = map (\<lambda>(k, c). Cancel c) (absent_entries S m)"

text \<open>
  The fourth end-to-end scenario of the specification: the gateway is linked to \<open>svcX\<close>,
  then \<open>svcY\<close> alone is delivered.
\<close>

definition scenario4_handler :: "unit handlerState" where
  "scenario4_handler =
     \<lparr>source_Datacenter = ''dc1'',
      dnsConfig = \<lparr>dns_Domain = ''consul'', dns_AltDomain = []\<rparr>,
      instance_of =
        \<lparr>kind = ''terminating-gateway'', service = ''tgw'',
         proxyID = \<lparr>sid_ID = ''tgw'', sid_EnterpriseMeta = \<lparr>Namespace = ''default''\<rparr>\<rparr>,
         address = ''10.0.0.9'', port = 8443, proxyCfg = emptyProxyConfig (), token = ''t''\<rparr>,
      cache_Notify = (\<lambda>cid. False),
      health_Notify = (\<lambda>cid. False)\<rparr>"

definition svcX :: ServiceName where
  "svcX = \<lparr>sn_Name = ''svcX'', sn_EnterpriseMeta = \<lparr>Namespace = ''default''\<rparr>\<rparr>"

definition svcY :: ServiceName where
  "svcY = \<lparr>sn_Name = ''svcY'', sn_EnterpriseMeta = \<lparr>Namespace = ''default''\<rparr>\<rparr>"

definition linked :: "ServiceName \<Rightarrow> GatewayService" where
  "linked sn = \<lparr>gs_Service = sn, gs_Port = 0, gs_Protocol = ''tcp'', gs_Hosts = []\<rparr>"

definition gateway_services_event :: "ServiceName list \<Rightarrow> UpdateEvent" where
  "gateway_services_event sns =
     \<lparr>CorrelationID = ''gateway-services'', Result = IndexedGatewayServices (map linked sns),
      Err = False\<rparr>"

text \<open>The snapshot in the steady state with the one linked service \<open>svcX\<close>.\<close>

definition scenario4_snapshot :: "nat configSnapshotTerminatingGateway" where
  "scenario4_snapshot =
     \<lparr>WatchedServices = [(svcX, 0)],
      WatchedIntentions = [(svcX, 1)], Intentions = [(svcX, 11)],
      WatchedLeaves = [(svcX, 2)], ServiceLeaves = [(svcX, 12)],
      WatchedConfigs = [(svcX, 3)], ServiceConfigs = [(svcX, 13)],
      WatchedResolvers = [(svcX, 4)], ServiceResolvers = [(svcX, 14)],
      ServiceResolversSet = [(svcX, True)],
      ServiceGroups = [(svcX, [host_node])],
      GatewayServices = [(svcX, linked svcX)],
      HostnameServices = [(svcX, [host_node])]\<rparr>"

definition scenario4_after :: "nat configSnapshotTerminatingGateway" where
  "scenario4_after =
     \<lparr>WatchedServices = [(svcY, 5)],
      WatchedIntentions = [(svcY, 6)], Intentions = [],
      WatchedLeaves = [(svcY, 7)], ServiceLeaves = [],
      WatchedConfigs = [(svcY, 8)], ServiceConfigs = [],
      WatchedResolvers = [(svcY, 9)], ServiceResolvers = [],
      ServiceResolversSet = [],
      ServiceGroups = [],
      GatewayServices = [(svcY, linked svcY)],
      HostnameServices = []\<rparr>"

text \<open>
  A later state of the same gateway. \<open>svcX\<close> is no longer linked and its five watches
  are cancelled, but events of those watches that were already under way have been
  handled since: the cases for \<open>external-service:\<close>, \<open>service-intentions:\<close>,
  \<open>service-leaf:\<close>, \<open>service-config:\<close> and \<open>service-resolver:\<close> store what they
  receive under the service named in the correlation id, whether it is watched or not.
  \<open>stale_after\<close> is this state once \<open>svcY\<close> alone has been delivered again.
\<close>

definition stale_snapshot :: "nat configSnapshotTerminatingGateway" where
  "stale_snapshot =
     \<lparr>WatchedServices = [(svcY, 5)],
      WatchedIntentions = [(svcY, 6)], Intentions = [(svcX, 11)],
      WatchedLeaves = [(svcY, 7)], ServiceLeaves = [(svcX, 12)],
      WatchedConfigs = [(svcY, 8)], ServiceConfigs = [(svcX, 13)],
      WatchedResolvers = [(svcY, 9)], ServiceResolvers = [(svcX, 14)],
      ServiceResolversSet = [(svcX, True)],
      ServiceGroups = [(svcX, [host_node])],
      GatewayServices = [(svcY, linked svcY)],
      HostnameServices = [(svcX, [host_node])]\<rparr>"

definition stale_after :: "nat configSnapshotTerminatingGateway" where
  "stale_after =
     \<lparr>WatchedServices = [(svcY, 5)],
      WatchedIntentions = [(svcY, 6)], Intentions = [(svcX, 11)],
      WatchedLeaves = [(svcY, 7)], ServiceLeaves = [(svcX, 12)],
      WatchedConfigs = [(svcY, 8)], ServiceConfigs = [(svcX, 13)],
      WatchedResolvers = [(svcY, 9)], ServiceResolvers = [(svcX, 14)],
      ServiceResolversSet = [(svcX, True)],
      ServiceGroups = [(svcX, [host_node])],
      GatewayServices = [(svcY, linked svcY)],
      HostnameServices = []\<rparr>"

section \<open>Package proxycfg: upstreams inferred from intentions\<close>

text \<open>
  The fields of the connect-proxy body of the snapshot that the intention-upstreams
  case reads and writes; the compiled discovery chains have the type \<open>'p\<close>. Of the
  ingress-gateway body, \<open>watchDiscoveryChain\<close> writes the map of chain watches.
\<close>

record ('c, 'p) configSnapshotConnectProxy =
  DiscoveryChain :: "(string \<times> 'p) list"
  WatchedDiscoveryChains :: "(string \<times> nat) list"
  WatchedUpstreams :: "(string \<times> (string \<times> nat) list) list"
  WatchedUpstreamEndpoints :: "(string \<times> (string \<times> CheckServiceNode list) list) list"
  WatchedGateways :: "(string \<times> (string \<times> nat) list) list"
  WatchedGatewayEndpoints :: "(string \<times> (string \<times> CheckServiceNode list) list) list"
  UpstreamConfig :: "(string \<times> 'c Upstream) list"

record ('c, 'p) ConfigSnapshot =
  ConnectProxy :: "('c, 'p) configSnapshotConnectProxy"
  IngressGateway_WatchedDiscoveryChains :: "(string \<times> nat) list"

definition intentionUpstreamsID :: string where
  "intentionUpstreamsID = ''intention-upstreams''"

definition ServiceKindConnectProxy :: string where
  "ServiceKindConnectProxy = ''connect-proxy''"

definition ServiceKindIngressGateway :: string where
  "ServiceKindIngressGateway = ''ingress-gateway''"

text \<open>
  What the case uses of package \<open>structs\<close> and of \<open>mapstructure\<close>: the string of a
  service name, the string of the wildcard service id, whether
  \<open>parseReducedUpstreamConfig\<close> returns an error on a configuration map, the empty
  configuration map, and the identifier of an upstream.
\<close>

record 'c structs_pkg =
  ServiceName_String :: "ServiceName \<Rightarrow> string"
  wildcardSID_String :: string
  parse_fails :: "'c \<Rightarrow> bool"
  empty_config :: 'c
  Identifier :: "'c Upstream \<Rightarrow> string"

text \<open>
  \<open>watchDiscoveryChain\<close>. The fields of the request other than the correlation id
  (the protocol, the connect timeout and the mesh-gateway mode computed by the caller)
  are not part of the log; the caller's computation of them is left out.
\<close>

definition watchDiscoveryChain ::
  "'c handlerState \<Rightarrow> string \<Rightarrow> ('c, 'p) ConfigSnapshot \<times> world \<Rightarrow>
   (('c, 'p) ConfigSnapshot \<times> world) \<times> handler_error option" where
  "watchDiscoveryChain s opts_id sw =
     (let (snap, w) = sw
      in case map_of (WatchedDiscoveryChains (ConnectProxy snap)) opts_id of
           Some _ \<Rightarrow> (sw, None)
         | None \<Rightarrow>
             (let cid = ''discovery-chain:'' @ opts_id;
                  ((cancel, w'), failed) = start_watch (cache_Notify s) CompiledDiscoveryChain cid w
              in if failed then ((snap, w'), Some (NotifyFailed cid))
                 else if kind (instance_of s) = ServiceKindIngressGateway then
                   ((snap\<lparr>IngressGateway_WatchedDiscoveryChains :=
                            AList.update opts_id cancel (IngressGateway_WatchedDiscoveryChains snap)\<rparr>,
                     w'), None)
                 else if kind (instance_of s) = ServiceKindConnectProxy then
                   ((snap\<lparr>ConnectProxy := (ConnectProxy snap)
                            \<lparr>WatchedDiscoveryChains :=
                               AList.update opts_id cancel
                                 (WatchedDiscoveryChains (ConnectProxy snap))\<rparr>\<rparr>,
                     w'), None)
                 else ((snap, emit (Cancel cancel) w'),
                       Some (UnsupportedKind (kind (instance_of s))))))"

text \<open>
  The body of the loop over the services of the payload: the upstream configuration is
  looked up, the wildcard defaults adopted when there is none, the reduced configuration
  parsed (a failure is a warning that names the upstream, through a pointer that is nil
  when there is neither a configuration nor defaults), and the chain watched.
\<close>

definition infer_upstream ::
  "'c handlerState \<Rightarrow> 'c structs_pkg \<Rightarrow> ServiceName \<Rightarrow>
   ('c, 'p) ConfigSnapshot \<times> world \<Rightarrow>
   (('c, 'p) ConfigSnapshot \<times> world) \<times> handler_error option" where
  "infer_upstream s pkg svc sw =
     (let (snap, w) = sw;
          cp = ConnectProxy snap;
          (u, cfgMap, snap1) =
            (case map_of (UpstreamConfig cp) (ServiceName_String pkg svc) of
               Some u \<Rightarrow> (Some u, us_Config u, snap)
             | None \<Rightarrow>
                 (case map_of (UpstreamConfig cp) (wildcardSID_String pkg) of
                    Some defaults \<Rightarrow>
                      (Some defaults, us_Config defaults,
                       snap\<lparr>ConnectProxy := cp
                         \<lparr>UpstreamConfig :=
                            AList.update (ServiceName_String pkg svc) defaults (UpstreamConfig cp)\<rparr>\<rparr>)
                  | None \<Rightarrow> (None, empty_config pkg, snap)))
      in if parse_fails pkg cfgMap then
           (case u of
              None \<Rightarrow> ((snap1, w), Some NilPointerDereference)
            | Some up \<Rightarrow>
                watchDiscoveryChain s (ServiceName_String pkg svc)
                  (snap1, emit (Warn (''failed to parse upstream config upstream='' @ Identifier pkg up)) w))
         else watchDiscoveryChain s (ServiceName_String pkg svc) (snap1, w))"

text \<open>
  The guard of the five clean-up loops: the upstream has a configuration whose
  datacenter is set and is not the source datacenter.
\<close>

definition other_datacenter ::
  "'c handlerState \<Rightarrow> (string \<times> 'c Upstream) list \<Rightarrow> string \<Rightarrow> bool" where
  "other_datacenter s upstreamConfig sn =
     (case map_of upstreamConfig sn of
        Some upstream \<Rightarrow> us_Datacenter upstream \<noteq> [] \<and> us_Datacenter upstream \<noteq> source_Datacenter s
      | None \<Rightarrow> False)"

text \<open>
  \<open>for sn := range m { if <other datacenter> { continue }; if _, ok := seenServices[sn];
  !ok { delete(m, sn) } }\<close>, for the four maps of endpoints and watches.
\<close>

definition delete_unseen ::
  "'c handlerState \<Rightarrow> (string \<times> 'c Upstream) list \<Rightarrow> string set \<Rightarrow>
   (string \<times> 'v) list \<Rightarrow> (string \<times> 'v) list" where
  "delete_unseen s upstreamConfig seenServices m =
     fold (\<lambda>(sn, _) m'.
             if other_datacenter s upstreamConfig sn then m'
             else if sn \<in> seenServices then m' else AList.delete sn m')
          m m"

text \<open>The last loop, which also cancels the chain watch and forgets the chain.\<close>

definition cancel_unseen_chains ::
  "'c handlerState \<Rightarrow> string set \<Rightarrow> ('c, 'p) configSnapshotConnectProxy \<times> world \<Rightarrow>
   ('c, 'p) configSnapshotConnectProxy \<times> world" where
  "cancel_unseen_chains s seenServices cw =
     fold (\<lambda>(sn, cancelFn) (cp, w).
             if other_datacenter s (UpstreamConfig cp) sn then (cp, w)
             else if sn \<in> seenServices then (cp, w)
             else (cp\<lparr>DiscoveryChain := AList.delete sn (DiscoveryChain cp),
                      WatchedDiscoveryChains := AList.delete sn (WatchedDiscoveryChains cp)\<rparr>,
                   emit (Cancel cancelFn) w))
          (WatchedDiscoveryChains (fst cw)) cw"

text \<open>
  \<open>handlerConnectProxy.handleUpdate\<close> on an event whose correlation id is
  \<open>intentionUpstreamsID\<close>: the error check, the type assertion and the case of the switch
  for that id. An event with another id is outside the domain of this definition.
\<close>

definition handleUpdate_intentionUpstreams ::
  "'c handlerState \<Rightarrow> 'c structs_pkg \<Rightarrow> UpdateEvent \<Rightarrow>
   ('c, 'p) ConfigSnapshot \<times> world \<Rightarrow>
   ((('c, 'p) ConfigSnapshot \<times> world) \<times> handler_error option) option" where
  "handleUpdate_intentionUpstreams s pkg u sw =
     (if Err u then Some (sw, Some ErrorFillingAgentCache)
      else if CorrelationID u = intentionUpstreamsID then
        (case Result u of
           IndexedServiceList services \<Rightarrow>
             (case steps (map (infer_upstream s pkg) services) sw of
                (sw1, Some e) \<Rightarrow> Some (sw1, Some e)
              | ((snap1, w1), None) \<Rightarrow>
                  (let seenServices = set (map (ServiceName_String pkg) services);
                       cp1 = ConnectProxy snap1;
                       cp2 = cp1\<lparr>WatchedUpstreams :=
                                  delete_unseen s (UpstreamConfig cp1) seenServices
                                    (WatchedUpstreams cp1)\<rparr>;
                       cp3 = cp2\<lparr>WatchedUpstreamEndpoints :=
                                  delete_unseen s (UpstreamConfig cp2) seenServices
                                    (WatchedUpstreamEndpoints cp2)\<rparr>;
                       cp4 = cp3\<lparr>WatchedGateways :=
                                  delete_unseen s (UpstreamConfig cp3) seenServices
                                    (WatchedGateways cp3)\<rparr>;
                       cp5 = cp4\<lparr>WatchedGatewayEndpoints :=
                                  delete_unseen s (UpstreamConfig cp4) seenServices
                                    (WatchedGatewayEndpoints cp4)\<rparr>;
                       (cp6, w6) = cancel_unseen_chains s seenServices (cp5, w1)
                   in Some ((snap1\<lparr>ConnectProxy := cp6\<rparr>, w6), None)))
         | _ \<Rightarrow> Some (sw, Some InvalidTypeForResponse))
      else None)"

text \<open>An entry the clean-up loops keep: pinned to another datacenter, or seen in the payload.\<close>

definition kept_upstream :: "'c handlerState \<Rightarrow> (string \<times> 'c Upstream) list \<Rightarrow> string set \<Rightarrow> string \<Rightarrow> bool" where
  "kept_upstream s upstreamConfig seenServices sn =
     (other_datacenter s upstreamConfig sn \<or> sn \<in> seenServices)"

text \<open>
  What the loop over the services of the payload may do: it leaves the four maps of
  endpoints and watches and the chains alone, keeps every chain watch and every upstream
  configuration it finds, and adds configurations only for services of the payload.
\<close>

definition infers_only ::
  "string set \<Rightarrow> ('c, 'p) ConfigSnapshot \<times> world \<Rightarrow> ('c, 'p) ConfigSnapshot \<times> world \<Rightarrow> bool" where
  "infers_only seen sw sw' =
     (let cp = ConnectProxy (fst sw); cp' = ConnectProxy (fst sw')
      in (\<exists>new. effects_log (snd sw') = effects_log (snd sw) @ new)
         \<and> WatchedUpstreams cp' = WatchedUpstreams cp
         \<and> WatchedUpstreamEndpoints cp' = WatchedUpstreamEndpoints cp
         \<and> WatchedGateways cp' = WatchedGateways cp
         \<and> WatchedGatewayEndpoints cp' = WatchedGatewayEndpoints cp
         \<and> DiscoveryChain cp' = DiscoveryChain cp
         \<and> (\<forall>k c. map_of (WatchedDiscoveryChains cp) k = Some c
                   \<longrightarrow> map_of (WatchedDiscoveryChains cp') k = Some c)
         \<and> (\<forall>k. k \<notin> seen \<longrightarrow> map_of (UpstreamConfig cp') k = map_of (UpstreamConfig cp) k)
         \<and> (\<forall>k up. map_of (UpstreamConfig cp) k = Some up
                    \<longrightarrow> map_of (UpstreamConfig cp') k = Some up))"

text \<open>
  A transparent-mode proxy in \<open>dc1\<close> that watches three upstreams: \<open>old\<close>, inferred
  earlier; \<open>remote\<close>, configured in datacenter \<open>dc2\<close>; and \<open>svcA\<close>, which the next
  payload names again. The second handler is the same with a cache whose \<open>Notify\<close>
  fails.
\<close>

definition transparent_handler :: "unit handlerState" where
  "transparent_handler =
     \<lparr>source_Datacenter = ''dc1'',
      dnsConfig = \<lparr>dns_Domain = ''consul'', dns_AltDomain = []\<rparr>,
      instance_of =
        \<lparr>kind = ''connect-proxy'', service = ''web-sidecar'',
         proxyID = \<lparr>sid_ID = ''web-sidecar'', sid_EnterpriseMeta = \<lparr>Namespace = ''default''\<rparr>\<rparr>,
         address = ''10.0.0.5'', port = 21000, proxyCfg = emptyProxyConfig (), token = ''t''\<rparr>,
      cache_Notify = (\<lambda>cid. False),
      health_Notify = (\<lambda>cid. False)\<rparr>"

definition failing_cache_handler :: "unit handlerState" where
  "failing_cache_handler = transparent_handler\<lparr>cache_Notify := (\<lambda>cid. True)\<rparr>"

definition oss_pkg :: "unit structs_pkg" where
  "oss_pkg =
     \<lparr>ServiceName_String = sn_Name, wildcardSID_String = ''*'', parse_fails = (\<lambda>m. False),
      empty_config = (), Identifier = DestinationName\<rparr>"

definition service_named :: "string \<Rightarrow> ServiceName" where
  "service_named n = \<lparr>sn_Name = n, sn_EnterpriseMeta = \<lparr>Namespace = ''default''\<rparr>\<rparr>"

definition intention_upstreams_event :: "string list \<Rightarrow> UpdateEvent" where
  "intention_upstreams_event ns =
     \<lparr>CorrelationID = ''intention-upstreams'',
      Result = IndexedServiceList (map service_named ns), Err = False\<rparr>"

definition remote_upstream :: "unit Upstream" where
  "remote_upstream =
     \<lparr>DestinationType = [], DestinationNamespace = ''default'', DestinationName = ''remote'',
      us_Datacenter = ''dc2'', us_MeshGateway = [], us_Config = (), CentrallyConfigured = False\<rparr>"

definition transparent_snapshot :: "(unit, nat) ConfigSnapshot" where
  "transparent_snapshot =
     \<lparr>ConnectProxy =
        \<lparr>DiscoveryChain = [(''old'', 7), (''remote'', 8), (''svcA'', 9)],
         WatchedDiscoveryChains = [(''old'', 1), (''remote'', 2), (''svcA'', 3)],
         WatchedUpstreams = [(''old'', [(''old.default.dc1'', 4)]),
                             (''remote'', [(''remote.default.dc2'', 5)]),
                             (''svcA'', [(''svcA.default.dc1'', 6)])],
         WatchedUpstreamEndpoints = [(''old'', [(''old.default.dc1'', [ip_node])]),
                                     (''remote'', [(''remote.default.dc2'', [host_node])])],
         WatchedGateways = [(''old'', []), (''remote'', []), (''svcA'', [])],
         WatchedGatewayEndpoints = [(''old'', []), (''remote'', []), (''svcA'', [])],
         UpstreamConfig = [(''remote'', remote_upstream)]\<rparr>,
      IngressGateway_WatchedDiscoveryChains = []\<rparr>"

definition transparent_after :: "(unit, nat) ConfigSnapshot" where
  "transparent_after =
     \<lparr>ConnectProxy =
        \<lparr>DiscoveryChain = [(''remote'', 8), (''svcA'', 9)],
         WatchedDiscoveryChains = [(''remote'', 2), (''svcA'', 3), (''svcB'', 10)],
         WatchedUpstreams = [(''remote'', [(''remote.default.dc2'', 5)]),
                             (''svcA'', [(''svcA.default.dc1'', 6)])],
         WatchedUpstreamEndpoints = [(''remote'', [(''remote.default.dc2'', [host_node])])],
         WatchedGateways = [(''remote'', []), (''svcA'', [])],
         WatchedGatewayEndpoints = [(''remote'', []), (''svcA'', [])],
         UpstreamConfig = [(''remote'', remote_upstream)]\<rparr>,
      IngressGateway_WatchedDiscoveryChains = []\<rparr>"

section \<open>Properties of the scale factor\<close>

lemma log2_numeral_128: "log 2 (128::real) = 7"
proof -
  have "(128::real) = 2 powr 7" by simp
  then show ?thesis by (simp only: log_powr_cancel)
qed

lemma scaleFactor_formula:
  "scaleFactor n = (if n \<le> 128 then 1 else \<lceil>log 2 (real_of_int n) - log 2 128\<rceil> + 1)"
proof (cases "n \<le> 128")
  case True
  then show ?thesis by (simp add: scaleFactor_def scaleThreshold_def)
next
  case False
  then have "log 2 128 \<le> log 2 (real_of_int n)" by simp
  then have "0 \<le> \<lceil>log 2 (real_of_int n) - log 2 128\<rceil>" by simp
  then have "go_int (real_of_int \<lceil>log 2 (real_of_int n) - log 2 128\<rceil> + 1)
             = \<lceil>log 2 (real_of_int n) - log 2 128\<rceil> + 1"
    unfolding go_int_def by (simp add: floor_add_int[symmetric] del: floor_add_int)
  with False show ?thesis
    by (simp add: scaleFactor_def scaleThreshold_def math_Ceil_def math_Log2_def)
qed

lemma scaleFactor_pow2:
  assumes "7 \<le> k"
  shows "scaleFactor (2 ^ k) = int k - 6"
proof (cases "k = 7")
  case True
  then show ?thesis by (simp add: scaleFactor_def scaleThreshold_def)
next
  case False
  with assms have k: "7 < k" by simp
  then have "(2::int) ^ 7 < 2 ^ k" by (intro power_strict_increasing) simp_all
  then have gt: "\<not> (2::int) ^ k \<le> 128" by simp
  have "log 2 (real_of_int (2 ^ k)) = real k" by (simp add: log_nat_power)
  then have "\<lceil>log 2 (real_of_int (2 ^ k)) - log 2 128\<rceil> = int k - 7"
    by (simp add: log2_numeral_128)
  with gt show ?thesis by (simp add: scaleFactor_formula)
qed

lemma scaleFactor_ge_1: "1 \<le> scaleFactor n"
proof (cases "n \<le> 128")
  case True
  then show ?thesis by (simp add: scaleFactor_formula)
next
  case False
  then have "log 2 128 \<le> log 2 (real_of_int n)" by simp
  then have "0 \<le> \<lceil>log 2 (real_of_int n) - log 2 128\<rceil>" by simp
  with False show ?thesis by (simp add: scaleFactor_formula)
qed

lemma scaleFactor_mono:
  assumes "n \<le> m"
  shows "scaleFactor n \<le> scaleFactor m"
proof (cases "n \<le> 128")
  case True
  then have "scaleFactor n = 1" by (simp add: scaleFactor_formula)
  then show ?thesis using scaleFactor_ge_1 [of m] by simp
next
  case False
  with assms have m: "\<not> m \<le> 128" and pos: "0 < n" by simp_all
  from pos assms have "log 2 (real_of_int n) \<le> log 2 (real_of_int m)" by simp
  then have "\<lceil>log 2 (real_of_int n) - log 2 128\<rceil> \<le> \<lceil>log 2 (real_of_int m) - log 2 128\<rceil>"
    by (intro ceiling_mono) simp
  with False m show ?thesis by (simp add: scaleFactor_formula)
qed

text \<open>
  Claim C7. For every node count \<open>n\<close> the scale factor is 1 when \<open>n \<le> 128\<close> and
  \<open>\<lceil>log\<^sub>2 n - log\<^sub>2 128\<rceil> + 1\<close> when \<open>n > 128\<close>; it is monotone non-decreasing, and
  its values at 128, 256, 512 and 8192 are 1, 2, 3 and 7.
\<close>

theorem scaleFactor_spec:
  "scaleFactor n = (if n \<le> 128 then 1 else \<lceil>log 2 (real_of_int n) - log 2 128\<rceil> + 1)
   \<and> (n \<le> m \<longrightarrow> scaleFactor n \<le> scaleFactor m)
   \<and> scaleFactor 128 = 1 \<and> scaleFactor 256 = 2
   \<and> scaleFactor 512 = 3 \<and> scaleFactor 8192 = 7"
proof -
  have "scaleFactor 128 = 1 \<and> scaleFactor 256 = 2
        \<and> scaleFactor 512 = 3 \<and> scaleFactor 8192 = 7"
    using scaleFactor_pow2 [of 7] scaleFactor_pow2 [of 8]
          scaleFactor_pow2 [of 9] scaleFactor_pow2 [of 13]
    by simp
  then show ?thesis
    using scaleFactor_formula [of n] scaleFactor_mono [of n m] by blast
qed

theorem scaleFactor_spec_witness:
  "(100::int) \<le> 1000 \<and> scaleFactor 100 \<le> scaleFactor 1000 \<and> scaleFactor 100 = 1"
  using scaleFactor_spec [of 100 1000] by simp

section \<open>Properties of Changed\<close>

text \<open>
  Claim C10. For every proxy state and every token, \<open>Changed\<close> called with an absent
  (nil) registration returns true, whatever the stored service instance is.
\<close>

theorem Changed_nil: "Changed copy z csid i None tok = True"
  by (simp add: Changed_def)

theorem Changed_nil_witness:
  "Changed Copied ()
     (\<lambda>n. \<lparr>sid_ID = ns_ID n, sid_EnterpriseMeta = ns_EnterpriseMeta n\<rparr>)
     \<lparr>kind = ''connect-proxy'', service = ''web-sidecar'',
      proxyID = \<lparr>sid_ID = ''web-sidecar'', sid_EnterpriseMeta = \<lparr>Namespace = ''default''\<rparr>\<rparr>,
      address = ''10.0.0.5'', port = 21000, proxyCfg = emptyProxyConfig (),
      token = ''t''\<rparr>
     None ''t'' = True"
  by (rule Changed_nil)

section \<open>Properties of Pause and Resume\<close>

lemma calls_append:
  "calls (xs @ ys) st = (case calls xs st of Inl e \<Rightarrow> Inl e | Inr st' \<Rightarrow> calls ys st')"
proof (induction xs st rule: calls.induct)
  case (1 st)
  then show ?case by simp
next
  case (2 cs s out)
  then show ?case by simp
next
  case (3 cs s out)
  then show ?case by (auto split: sum.splits)
qed

lemma never_outnumbers_butlast:
  assumes "never_outnumbers (xs @ [x])"
  shows "never_outnumbers xs"
  unfolding never_outnumbers_def
proof (intro allI impI)
  fix k assume k: "k \<le> length xs"
  then have "k \<le> length (xs @ [x])" by simp
  with assms have "resumes (take k (xs @ [x])) \<le> pauses (take k (xs @ [x]))"
    unfolding never_outnumbers_def by blast
  with k show "resumes (take k xs) \<le> pauses (take k xs)" by simp
qed

lemma never_outnumbers_whole:
  assumes "never_outnumbers xs"
  shows "resumes xs \<le> pauses xs"
  using assms unfolding never_outnumbers_def by (metis order_refl take_all)

lemma calls_balanced:
  assumes "never_outnumbers cs"
  shows "\<exists>s out. calls cs (NewStateSyncer intv, []) = Inr (s, out) \<and> syncer_inv cs s"
  using assms
proof (induction cs rule: rev_induct)
  case Nil
  then show ?case by (simp add: syncer_inv_def NewStateSyncer_def pauses_def resumes_def)
next
  case (snoc x xs)
  from snoc.prems have nxs: "never_outnumbers xs" by (rule never_outnumbers_butlast)
  then have le0: "resumes xs \<le> pauses xs" by (rule never_outnumbers_whole)
  from nxs snoc.IH obtain s out where
    run: "calls xs (NewStateSyncer intv, []) = Inr (s, out)" and inv: "syncer_inv xs s"
    by blast
  from snoc.prems have le: "resumes (xs @ [x]) \<le> pauses (xs @ [x])"
    by (rule never_outnumbers_whole)
  show ?case
  proof (cases x)
    case CallPause
    with run inv le le0 show ?thesis
      by (auto simp: calls_append syncer_inv_def Pause_def Let_def pauses_def resumes_def)
  next
    case CallResume
    with le inv have pos: "0 < paused s"
      by (simp add: syncer_inv_def pauses_def resumes_def)
    with inv obtain c where c: "chPaused s = Some c" by (auto simp: syncer_inv_def)
    with CallResume run inv pos show ?thesis
      by (auto simp: calls_append syncer_inv_def Resume_def Let_def pauses_def resumes_def)
  qed
qed

text \<open>
  Claim C8. In every sequence of Pause and Resume calls in which Resume never outnumbers
  Pause, each Resume decrements the counter, returns true exactly when the counter
  reaches zero, and then, and only then, closes the channel that WaitResume showed and
  fires one SyncChanges trigger. A Pause followed by a Resume fires exactly one trigger.
\<close>

theorem Resume_refcount:
  assumes "never_outnumbers (pre @ [CallResume])"
  shows "(\<exists>s1 out1 s2 c.
            calls pre (NewStateSyncer intv, []) = Inr (s1, out1)
          \<and> paused s1 = int (pauses pre) - int (resumes pre)
          \<and> WaitResume s1 = Some c
          \<and> Resume s1 = Inr (s2, paused s2 = 0,
                              if paused s2 = 0 then [CloseChan c, TriggerSyncChanges] else [])
          \<and> paused s2 = paused s1 - 1
          \<and> WaitResume s2 = (if paused s2 = 0 then None else Some c)
          \<and> calls (pre @ [CallResume]) (NewStateSyncer intv, [])
              = Inr (s2, out1 @ (if paused s2 = 0 then [CloseChan c, TriggerSyncChanges] else [])))
       \<and> (\<exists>s. calls [CallPause, CallResume] (NewStateSyncer intv, [])
                  = Inr (s, [CloseChan 0, TriggerSyncChanges]) \<and> paused s = 0)"
proof
  from assms have "never_outnumbers pre" by (rule never_outnumbers_butlast)
  then obtain s out where
    run: "calls pre (NewStateSyncer intv, []) = Inr (s, out)" and inv: "syncer_inv pre s"
    using calls_balanced by blast
  from assms have "resumes (pre @ [CallResume]) \<le> pauses (pre @ [CallResume])"
    by (rule never_outnumbers_whole)
  with inv have pos: "0 < paused s" by (simp add: syncer_inv_def pauses_def resumes_def)
  with inv obtain c where c: "chPaused s = Some c" by (auto simp: syncer_inv_def)
  show "\<exists>s1 out1 s2 c.
            calls pre (NewStateSyncer intv, []) = Inr (s1, out1)
          \<and> paused s1 = int (pauses pre) - int (resumes pre)
          \<and> WaitResume s1 = Some c
          \<and> Resume s1 = Inr (s2, paused s2 = 0,
                              if paused s2 = 0 then [CloseChan c, TriggerSyncChanges] else [])
          \<and> paused s2 = paused s1 - 1
          \<and> WaitResume s2 = (if paused s2 = 0 then None else Some c)
          \<and> calls (pre @ [CallResume]) (NewStateSyncer intv, [])
              = Inr (s2, out1 @ (if paused s2 = 0 then [CloseChan c, TriggerSyncChanges] else []))"
  proof (cases "paused s = 1")
    case True
    with run inv c show ?thesis
      by (intro exI [of _ s] exI [of _ out] exI [of _ "s\<lparr>paused := 0, chPaused := None\<rparr>"]
                exI [of _ c])
         (simp add: calls_append syncer_inv_def Resume_def WaitResume_def)
  next
    case False
    with run inv c pos show ?thesis
      by (intro exI [of _ s] exI [of _ out] exI [of _ "s\<lparr>paused := paused s - 1\<rparr>"]
                exI [of _ c])
         (simp add: calls_append syncer_inv_def Resume_def WaitResume_def)
  qed
next
  show "\<exists>s. calls [CallPause, CallResume] (NewStateSyncer intv, [])
                  = Inr (s, [CloseChan 0, TriggerSyncChanges]) \<and> paused s = 0"
    by (simp add: Pause_def Resume_def NewStateSyncer_def)
qed

theorem Resume_refcount_witness:
  "never_outnumbers ([CallPause, CallPause, CallResume] @ [CallResume])
   \<and> (\<exists>s. calls [CallPause, CallPause, CallResume, CallResume] (NewStateSyncer 60, [])
            = Inr (s, [CloseChan 0, TriggerSyncChanges]) \<and> paused s = 0 \<and> WaitResume s = None)"
proof -
  have h: "never_outnumbers ([CallPause, CallPause, CallResume] @ [CallResume])"
    unfolding never_outnumbers_def
  proof (intro allI impI)
    fix k :: nat assume "k \<le> length ([CallPause, CallPause, CallResume] @ [CallResume])"
    then have "k \<in> {0, 1, 2, 3, 4}" by auto
    then show "resumes (take k ([CallPause, CallPause, CallResume] @ [CallResume]))
               \<le> pauses (take k ([CallPause, CallPause, CallResume] @ [CallResume]))"
      by (auto simp: resumes_def pauses_def)
  qed
  from Resume_refcount [OF h, of 60] show ?thesis
    using h by (auto simp: Pause_def Resume_def NewStateSyncer_def WaitResume_def)
qed

section \<open>Properties of the full-sync routine\<close>

text \<open>
  Claim C9. A pass of the full-sync loop with delay 0 first schedules the next periodic
  full sync for \<open>Interval + Jitter(Interval)\<close>. If the syncer is paused it does not
  call SyncFull and goes on with the delay \<open>retryFailInterval + Jitter(retryFailInterval)\<close>;
  otherwise it calls SyncFull, returns nil when that succeeds, and goes on with the same
  retry delay when it fails.
\<close>

theorem fullSync_delay_zero:
  fixes env r n
  defines "next_d \<equiv> Interval (syncer r) + Jitter env (jitterCalls r) (Interval (syncer r))"
  defines "retry_d \<equiv> retryFailInterval (syncer r)
                       + Jitter env (Suc (jitterCalls r)) (retryFailInterval (syncer r))"
  defines "scheduled \<equiv> (syncer r)\<lparr>timerNextFullSync := Some next_d\<rparr>"
  shows "(isPaused (syncer r) \<longrightarrow>
            (\<exists>r'. fullSync (Suc n) env r 0 = fullSync n env r' retry_d
                 \<and> syncer r' = scheduled
                 \<and> effects r' = effects r @ [ScheduleNextFullSync next_d]
                 \<and> syncFullCalls r' = syncFullCalls r
                 \<and> jitterCalls r' = Suc (Suc (jitterCalls r))
                 \<and> selectCalls r' = selectCalls r))
       \<and> (\<not> isPaused (syncer r) \<and> \<not> SyncFull_fails env (syncFullCalls r) \<longrightarrow>
            (\<exists>r'. fullSync (Suc n) env r 0 = Some (Returned_nil, r')
                 \<and> syncer r' = scheduled
                 \<and> effects r' = effects r @ [ScheduleNextFullSync next_d, CallSyncFull]
                 \<and> syncFullCalls r' = Suc (syncFullCalls r)
                 \<and> jitterCalls r' = Suc (jitterCalls r)
                 \<and> selectCalls r' = selectCalls r))
       \<and> (\<not> isPaused (syncer r) \<and> SyncFull_fails env (syncFullCalls r) \<longrightarrow>
            (\<exists>r'. fullSync (Suc n) env r 0 = fullSync n env r' retry_d
                 \<and> syncer r' = scheduled
                 \<and> effects r' = effects r @ [ScheduleNextFullSync next_d, CallSyncFull,
                                             LogSyncFullFailed]
                 \<and> syncFullCalls r' = Suc (syncFullCalls r)
                 \<and> jitterCalls r' = Suc (Suc (jitterCalls r))
                 \<and> selectCalls r' = selectCalls r))"
proof (intro conjI impI)
  assume "isPaused (syncer r)"
  then show "\<exists>r'. fullSync (Suc n) env r 0 = fullSync n env r' retry_d
                 \<and> syncer r' = scheduled
                 \<and> effects r' = effects r @ [ScheduleNextFullSync next_d]
                 \<and> syncFullCalls r' = syncFullCalls r
                 \<and> jitterCalls r' = Suc (Suc (jitterCalls r))
                 \<and> selectCalls r' = selectCalls r"
    unfolding next_d_def retry_d_def scheduled_def
    by (intro exI [of _ "snd (retryDelay env (schedule_next env r))"])
       (simp add: schedule_next_def jitter_def retryDelay_def isPaused_def Let_def)
next
  assume "\<not> isPaused (syncer r) \<and> \<not> SyncFull_fails env (syncFullCalls r)"
  then show "\<exists>r'. fullSync (Suc n) env r 0 = Some (Returned_nil, r')
                 \<and> syncer r' = scheduled
                 \<and> effects r' = effects r @ [ScheduleNextFullSync next_d, CallSyncFull]
                 \<and> syncFullCalls r' = Suc (syncFullCalls r)
                 \<and> jitterCalls r' = Suc (jitterCalls r)
                 \<and> selectCalls r' = selectCalls r"
    unfolding next_d_def retry_d_def scheduled_def
    by (simp add: schedule_next_def jitter_def call_SyncFull_def isPaused_def Let_def)
next
  assume "\<not> isPaused (syncer r) \<and> SyncFull_fails env (syncFullCalls r)"
  then show "\<exists>r'. fullSync (Suc n) env r 0 = fullSync n env r' retry_d
                 \<and> syncer r' = scheduled
                 \<and> effects r' = effects r @ [ScheduleNextFullSync next_d, CallSyncFull,
                                             LogSyncFullFailed]
                 \<and> syncFullCalls r' = Suc (syncFullCalls r)
                 \<and> jitterCalls r' = Suc (Suc (jitterCalls r))
                 \<and> selectCalls r' = selectCalls r"
    unfolding next_d_def retry_d_def scheduled_def
    by (intro exI [of _ "snd (retryDelay env
            ((snd (call_SyncFull env (schedule_next env r)))
               \<lparr>effects := effects (snd (call_SyncFull env (schedule_next env r)))
                             @ [LogSyncFullFailed]\<rparr>))"])
       (simp add: schedule_next_def jitter_def retryDelay_def call_SyncFull_def isPaused_def
                  Let_def)
qed

theorem fullSync_delay_zero_witness:
  "\<not> isPaused (syncer (start (NewStateSyncer (60 * second))))
   \<and> SyncFull_fails env0 (syncFullCalls (start (NewStateSyncer (60 * second))))
   \<and> fullSync (Suc 2) env0 (start (NewStateSyncer (60 * second))) 0
       = Some (Returned_nil,
           \<lparr>syncer = (NewStateSyncer (60 * second))\<lparr>timerNextFullSync := Some (90 * second)\<rparr>,
            jitterCalls = 3, syncFullCalls = 2, selectCalls = 1,
            effects = [ScheduleNextFullSync (90 * second), CallSyncFull, LogSyncFullFailed,
                       ScheduleNextFullSync (90 * second), CallSyncFull]\<rparr>)
   \<and> isPaused (syncer (start (Pause (NewStateSyncer (60 * second)))))
   \<and> fullSync (Suc 1) env0 (start (Pause (NewStateSyncer (60 * second)))) 0 = None"
  using fullSync_delay_zero [where env = env0 and r = "start (NewStateSyncer (60 * second))" and n = 2]
  by (simp add: env0_def start_def NewStateSyncer_def Pause_def isPaused_def second_def
                retryFailIntv_def serverUpIntv_def schedule_next_def jitter_def retryDelay_def
                call_SyncFull_def Let_def numeral_2_eq_2)

section \<open>Properties of the ingress leaf watch\<close>

lemma fold_append_concat:
  "fold (\<lambda>x acc. acc @ f x) xs init = init @ concat (map f xs)"
  by (induction xs arbitrary: init) simp_all

lemma generateIngressDNSSANs_concat:
  "TLSEnabled snap \<Longrightarrow>
   generateIngressDNSSANs s order snap = concat (map (ingress_names_for s) order) @ Hosts snap"
  by (simp add: generateIngressDNSSANs_def fold_append_concat)

text \<open>
  Claim C5. For an ingress gateway with TLS enabled, every re-issued leaf-cert watch
  carries, for each namespace among the listener upstreams (in the order in which the
  map of namespaces is ranged over), \<open>*.ingress.<ns>.<domain>\<close> and
  \<open>*.ingress.<ns>.<dc>.<domain>\<close>, then the same pair against the alt-domain when one
  is configured, the default namespace written without a prefix; the configured hosts
  follow. In the fifth scenario of the specification the list is exactly the five names
  given there.
\<close>

theorem ingress_leaf_SANs:
  fixes s :: "'c handlerState" and snap :: "'c configSnapshotIngressGateway"
    and order :: "string list" and w :: world
  assumes tls: "TLSEnabled snap" and sets: "TLSSet snap" "HostsSet snap"
    and order: "is_range_order order (namespaces snap)"
  defines "pre ns \<equiv> (if ns = ''default'' then [] else ns @ ''.'')"
  defines "sans \<equiv>
     concat (map (\<lambda>ns. [''*.ingress.'' @ pre ns @ dns_Domain (dnsConfig s),
                         ''*.ingress.'' @ pre ns @ source_Datacenter s @ ''.''
                            @ dns_Domain (dnsConfig s)]
                        @ (if dns_AltDomain (dnsConfig s) \<noteq> []
                           then [''*.ingress.'' @ pre ns @ dns_AltDomain (dnsConfig s),
                                 ''*.ingress.'' @ pre ns @ source_Datacenter s @ ''.''
                                    @ dns_AltDomain (dnsConfig s)]
                           else [])) order)
     @ Hosts snap"
  shows "generateIngressDNSSANs s order snap = sans
       \<and> set order = set (map DestinationNamespace (concat (map snd (ig_Upstreams snap))))
       \<and> (\<exists>w'. effects_log (snd (fst (watchIngressLeafCert s order (snap, w))))
                  = effects_log w
                    @ (case LeafCertWatchCancel snap of None \<Rightarrow> [] | Some c \<Rightarrow> [Cancel c])
                    @ [Notify (nextCtx w) ConnectCALeaf ''leaf'' sans]
                    @ w')
       \<and> generateIngressDNSSANs scenario5_handler [''web''] scenario5_snapshot
           = [''*.ingress.web.consul'', ''*.ingress.web.dc1.consul'',
              ''*.ingress.web.example.com'', ''*.ingress.web.dc1.example.com'',
              ''api.example.com'']"
proof (intro conjI)
  have "ingress_names_for s =
          (\<lambda>ns. [''*.ingress.'' @ pre ns @ dns_Domain (dnsConfig s),
                 ''*.ingress.'' @ pre ns @ source_Datacenter s @ ''.''
                    @ dns_Domain (dnsConfig s)]
                @ (if dns_AltDomain (dnsConfig s) \<noteq> []
                   then [''*.ingress.'' @ pre ns @ dns_AltDomain (dnsConfig s),
                         ''*.ingress.'' @ pre ns @ source_Datacenter s @ ''.''
                            @ dns_AltDomain (dnsConfig s)]
                   else []))"
    unfolding pre_def
    by (rule ext) (simp add: ingress_names_for_def IntentionDefaultNamespace_def Let_def)
  with tls show g: "generateIngressDNSSANs s order snap = sans"
    unfolding sans_def by (simp only: generateIngressDNSSANs_concat)
  show "set order = set (map DestinationNamespace (concat (map snd (ig_Upstreams snap))))"
    using order by (simp add: is_range_order_def namespaces_def)
  show "\<exists>w'. effects_log (snd (fst (watchIngressLeafCert s order (snap, w))))
                  = effects_log w
                    @ (case LeafCertWatchCancel snap of None \<Rightarrow> [] | Some c \<Rightarrow> [Cancel c])
                    @ [Notify (nextCtx w) ConnectCALeaf ''leaf'' sans]
                    @ w'"
    using sets g
    by (cases "cache_Notify s leafWatchID"; cases "LeafCertWatchCancel snap")
       (simp_all add: watchIngressLeafCert_def WithCancel_def emit_def leafWatchID_def)
  show "generateIngressDNSSANs scenario5_handler [''web''] scenario5_snapshot
           = [''*.ingress.web.consul'', ''*.ingress.web.dc1.consul'',
              ''*.ingress.web.example.com'', ''*.ingress.web.dc1.example.com'',
              ''api.example.com'']"
    by (simp add: generateIngressDNSSANs_def ingress_names_for_def scenario5_handler_def
                  scenario5_snapshot_def IntentionDefaultNamespace_def)
qed

theorem ingress_leaf_SANs_witness:
  "TLSEnabled scenario5_snapshot \<and> TLSSet scenario5_snapshot \<and> HostsSet scenario5_snapshot
   \<and> is_range_order [''web''] (namespaces scenario5_snapshot)
   \<and> watchIngressLeafCert scenario5_handler [''web'']
         (scenario5_snapshot, \<lparr>nextCtx = 7, effects_log = []\<rparr>)
       = ((scenario5_snapshot\<lparr>LeafCertWatchCancel := Some 7\<rparr>,
           \<lparr>nextCtx = 8,
            effects_log =
              [Cancel 3,
               Notify 7 ConnectCALeaf ''leaf''
                 [''*.ingress.web.consul'', ''*.ingress.web.dc1.consul'',
                  ''*.ingress.web.example.com'', ''*.ingress.web.dc1.example.com'',
                  ''api.example.com'']]\<rparr>), False)"
proof -
  have h: "TLSEnabled scenario5_snapshot" "TLSSet scenario5_snapshot"
          "HostsSet scenario5_snapshot"
          "is_range_order [''web''] (namespaces scenario5_snapshot)"
    by (simp_all add: scenario5_snapshot_def is_range_order_def namespaces_def)
  from ingress_leaf_SANs [OF h, where s = scenario5_handler]
  have g: "generateIngressDNSSANs scenario5_handler [''web''] scenario5_snapshot
           = [''*.ingress.web.consul'', ''*.ingress.web.dc1.consul'',
              ''*.ingress.web.example.com'', ''*.ingress.web.dc1.example.com'',
              ''api.example.com'']"
    by blast
  have "watchIngressLeafCert scenario5_handler [''web'']
         (scenario5_snapshot, \<lparr>nextCtx = 7, effects_log = []\<rparr>)
       = ((scenario5_snapshot\<lparr>LeafCertWatchCancel := Some 7\<rparr>,
           \<lparr>nextCtx = 8,
            effects_log =
              [Cancel 3,
               Notify 7 ConnectCALeaf ''leaf''
                 (generateIngressDNSSANs scenario5_handler [''web''] scenario5_snapshot)]\<rparr>),
          False)"
    by (simp add: watchIngressLeafCert_def WithCancel_def emit_def leafWatchID_def
                  scenario5_handler_def scenario5_snapshot_def)
  with g h show ?thesis by simp
qed

section \<open>Properties of hostnameEndpoints\<close>

lemma fold_classify:
  "fold (classify P B dc) nodes (hasIP, hasHostname, resp) =
     (hasIP \<or> (\<exists>n\<in>set nodes. P (fst (B (dc \<noteq> Node_Datacenter n) n))),
      hasHostname \<or> (\<exists>n\<in>set nodes. \<not> P (fst (B (dc \<noteq> Node_Datacenter n) n))),
      resp @ filter (\<lambda>n. \<not> P (fst (B (dc \<noteq> Node_Datacenter n) n))) nodes)"
proof (induction nodes arbitrary: hasIP hasHostname resp)
  case Nil
  then show ?case by simp
next
  case (Cons n nodes)
  show ?case
  proof (cases "P (fst (B (dc \<noteq> Node_Datacenter n) n))")
    case True
    then have "classify P B dc n (hasIP, hasHostname, resp) = (True, hasHostname, resp)"
      by (cases "B (dc \<noteq> Node_Datacenter n) n") (simp add: classify_def)
    with True show ?thesis by (simp add: Cons.IH)
  next
    case False
    then have "classify P B dc n (hasIP, hasHostname, resp) = (hasIP, True, resp @ [n])"
      by (cases "B (dc \<noteq> Node_Datacenter n) n") (simp add: classify_def)
    with False show ?thesis by (simp add: Cons.IH)
  qed
qed

text \<open>
  Claim C6. For every list of endpoint nodes, \<open>hostnameEndpoints\<close> returns exactly the
  instances whose best address (the WAN rule applied when the node is in another
  datacenter) is not an IP address, in their order; it logs a warning exactly when the
  list has both IP addresses and names. For the endpoints 10.0.0.1 and host.example the
  result is host.example alone, with a warning.
\<close>

theorem hostnameEndpoints_spec:
  fixes ParseIP BestAddress localDC nodes
  defines "is_ip \<equiv> \<lambda>n. ParseIP (fst (BestAddress (localDC \<noteq> Node_Datacenter n) n))"
  shows "(\<exists>warnings.
            hostnameEndpoints ParseIP BestAddress localDC nodes
              = Inr (filter (\<lambda>n. \<not> is_ip n) nodes, warnings)
          \<and> length warnings \<le> 1
          \<and> (warnings \<noteq> [] \<longleftrightarrow> (\<exists>n\<in>set nodes. is_ip n) \<and> (\<exists>n\<in>set nodes. \<not> is_ip n)))
       \<and> dotted_quad ''10.0.0.1'' \<and> \<not> dotted_quad ''host.example''
       \<and> (\<exists>warning. hostnameEndpoints dotted_quad simple_BestAddress ''dc1'' [ip_node, host_node]
              = Inr ([host_node], [Warn warning]))"
proof (intro conjI)
  show "\<exists>warnings.
            hostnameEndpoints ParseIP BestAddress localDC nodes
              = Inr (filter (\<lambda>n. \<not> is_ip n) nodes, warnings)
          \<and> length warnings \<le> 1
          \<and> (warnings \<noteq> [] \<longleftrightarrow> (\<exists>n\<in>set nodes. is_ip n) \<and> (\<exists>n\<in>set nodes. \<not> is_ip n))"
  proof (cases "(\<exists>n\<in>set nodes. is_ip n) \<and> (\<exists>n\<in>set nodes. \<not> is_ip n)")
    case True
    then obtain n0 rest where "nodes = n0 # rest" by (cases nodes) auto
    with True show ?thesis
      unfolding is_ip_def hostnameEndpoints_def fold_classify by auto
  next
    case False
    then show ?thesis
      unfolding is_ip_def hostnameEndpoints_def fold_classify by auto
  qed
  show q1: "dotted_quad ''10.0.0.1''"
    by (simp add: dotted_quad_def ip_field_def digit_value_def)
  show q2: "\<not> dotted_quad ''host.example''"
    by (simp add: dotted_quad_def ip_field_def digit_value_def)
  show "\<exists>warning. hostnameEndpoints dotted_quad simple_BestAddress ''dc1'' [ip_node, host_node]
              = Inr ([host_node], [Warn warning])"
    using q1 q2
    by (simp add: hostnameEndpoints_def classify_def simple_BestAddress_def ip_node_def
                  host_node_def)
qed

theorem hostnameEndpoints_spec_witness:
  "hostnameEndpoints dotted_quad simple_BestAddress ''dc1'' [ip_node, host_node]
     = Inr (filter (\<lambda>n. \<not> dotted_quad (fst (simple_BestAddress (''dc1'' \<noteq> Node_Datacenter n) n)))
                   [ip_node, host_node],
            [Warn (''service contains instances with mix of hostnames and IP addresses; only hostnames will be passed to Envoy''
                   @ '' dc=dc1 service=api'')])
   \<and> filter (\<lambda>n. \<not> dotted_quad (fst (simple_BestAddress (''dc1'' \<noteq> Node_Datacenter n) n)))
             [ip_node, host_node] = [host_node]"
proof -
  from hostnameEndpoints_spec [of dotted_quad simple_BestAddress "''dc1''" "[ip_node, host_node]"]
  have q: "dotted_quad ''10.0.0.1''" "\<not> dotted_quad ''host.example''" by blast+
  then show ?thesis
    by (simp add: hostnameEndpoints_def classify_def simple_BestAddress_def ip_node_def
                  host_node_def)
qed

section \<open>Properties of the event loop\<close>

lemma run_append:
  "run h (es @ es') st = (case run h es st of None \<Rightarrow> None | Some st' \<Rightarrow> run h es' st')"
  by (induction es arbitrary: st) (simp_all split: option.splits)

lemma timer_inv_start: "timer_inv (start_loop s0)"
  by (simp add: timer_inv_def start_loop_def)

lemma timer_inv_step:
  assumes "timer_inv st" and "run_step h e st = Some st'"
  shows "timer_inv st'"
proof (cases e)
  case CtxDone
  with assms show ?thesis by (auto simp: timer_inv_def say_def split: if_splits)
next
  case (FromCh u)
  with assms show ?thesis
    by (auto simp: timer_inv_def say_def after_select_def arm_timer_def Let_def
             split: if_splits prod.splits)
next
  case FromSendCh
  with assms show ?thesis
    by (auto simp: timer_inv_def say_def arm_timer_def Let_def snapCh_capacity_def
             split: if_splits list.splits option.splits)
next
  case (FromReqCh r)
  with assms show ?thesis
    by (auto simp: timer_inv_def say_def split: if_splits option.splits)
next
  case ConsumerReceives
  with assms show ?thesis by (auto simp: timer_inv_def split: list.splits)
qed

lemma timer_inv_run:
  assumes "timer_inv st" and "run h es st = Some st'"
  shows "timer_inv st'"
  using assms
proof (induction es arbitrary: st)
  case Nil
  then show ?case by simp
next
  case (Cons e es)
  then show ?case by (auto split: option.splits dest: timer_inv_step)
qed

lemma starved_step:
  assumes "starved st" and "run_step h e st = Some st'"
  shows "starved st' \<and> timersMade st' = timersMade st \<and> e \<noteq> FromSendCh
         \<and> (\<forall>x. Delivered x \<in> set (loop_out st') \<longrightarrow> Delivered x \<in> set (loop_out st))"
proof (cases e)
  case CtxDone
  with assms show ?thesis by (auto simp: starved_def say_def split: if_splits)
next
  case (FromCh u)
  with assms show ?thesis
    by (auto simp: starved_def say_def after_select_def Let_def split: if_splits prod.splits)
next
  case FromSendCh
  with assms show ?thesis by (auto simp: starved_def split: if_splits)
next
  case (FromReqCh r)
  with assms show ?thesis by (auto simp: starved_def say_def split: if_splits option.splits)
next
  case ConsumerReceives
  with assms show ?thesis by (auto simp: starved_def split: list.splits)
qed

lemma starved_run:
  assumes "starved st" and "run h es st = Some st'"
  shows "starved st' \<and> timersMade st' = timersMade st \<and> FromSendCh \<notin> set es
         \<and> (\<forall>x. Delivered x \<in> set (loop_out st') \<longrightarrow> Delivered x \<in> set (loop_out st))"
  using assms
proof (induction es arbitrary: st)
  case Nil
  then show ?case by simp
next
  case (Cons e es)
  from Cons.prems obtain st1 where s1: "run_step h e st = Some st1" and r: "run h es st1 = Some st'"
    by (auto split: option.splits)
  from starved_step [OF Cons.prems(1) s1] Cons.IH [OF _ r] show ?case by auto
qed

lemma FromSendCh_enabled:
  assumes "run_step h FromSendCh st = Some st'"
  shows "\<not> returned st \<and> sendCh_senders st \<noteq> []"
  using assms by (cases "returned st"; cases "sendCh_senders st") simp_all

lemma timer_inv_reachable:
  assumes "run h es (start_loop s0) = Some st"
  shows "timer_inv st"
  by (rule timer_inv_run [OF timer_inv_start assms])

lemma FromSendCh_full:
  assumes "sendCh_senders st = [t]" and "\<not> returned st" and "coalesceTimer st = Some k"
    and "length (snapCh st) = snapCh_capacity" and "Clone h (loop_snap st) = Some c"
  shows "run_step h FromSendCh st
          = Some (say (LogTrace ''Failed to deliver new snapshot to proxy config watchers'')
                      (st\<lparr>sendCh_senders := []\<rparr>))"
  using assms by (simp add: Let_def say_def)

text \<open>
  Claim C1. The loop never blocks on a send to its outbound channel: a tick that finds the
  channel full takes the \<open>default\<close> case, leaves the snapshot unchanged and goes on. The
  claim adds that a fresh coalesce timer is then armed; the theorem shows what the loop
  does instead. In every state the loop can reach, the timer pointer is not nil when a
  tick arrives, so the guard \<open>coalesceTimer == nil\<close> of the \<open>default\<close> case fails: no
  timer is made, no callback is left to send on \<open>sendCh\<close>, and whatever happens
  afterwards no tick arrives and no snapshot is delivered any more.
\<close>

theorem full_channel_arms_no_timer:
  assumes reach: "run h es (start_loop s0) = Some st"
    and tick: "run_step h FromSendCh st = Some st'"
    and full: "length (snapCh st) = snapCh_capacity"
    and clone: "Clone h (loop_snap st) = Some c"
  shows "loop_snap st' = loop_snap st \<and> snapCh st' = snapCh st
       \<and> loop_out st' = loop_out st
            @ [LogTrace ''Failed to deliver new snapshot to proxy config watchers'']
       \<and> timersMade st' = timersMade st
       \<and> sendCh_senders st' = [] \<and> coalesceTimer st' = coalesceTimer st
       \<and> coalesceTimer st' \<noteq> None
       \<and> (\<forall>es' st''. run h es' st' = Some st'' \<longrightarrow>
             FromSendCh \<notin> set es' \<and> timersMade st'' = timersMade st
             \<and> (\<forall>x. Delivered x \<in> set (loop_out st'') \<longrightarrow> Delivered x \<in> set (loop_out st)))"
proof -
  from reach have inv: "timer_inv st" by (rule timer_inv_reachable)
  from FromSendCh_enabled [OF tick] obtain t ts
    where snd: "sendCh_senders st = t # ts" and nr: "\<not> returned st"
    by (cases "sendCh_senders st") simp_all
  with inv have ts: "ts = []" and armed: "coalesceTimer st \<noteq> None"
    by (auto simp: timer_inv_def)
  from armed obtain k where k: "coalesceTimer st = Some k" by auto
  from snd ts have "sendCh_senders st = [t]" by simp
  from FromSendCh_full [OF this nr k full clone] tick
  have st': "st' = say (LogTrace ''Failed to deliver new snapshot to proxy config watchers'')
                      (st\<lparr>sendCh_senders := []\<rparr>)"
    by simp
  have a1: "loop_snap st' = loop_snap st" and a2: "snapCh st' = snapCh st"
    and a3: "loop_out st' = loop_out st
            @ [LogTrace ''Failed to deliver new snapshot to proxy config watchers'']"
    and a4: "timersMade st' = timersMade st" and a5: "sendCh_senders st' = []"
    and a6: "coalesceTimer st' = coalesceTimer st"
    unfolding st' by (simp_all add: say_def)
  from a6 k have a7: "coalesceTimer st' \<noteq> None" by simp
  from a5 a6 k have s: "starved st'" by (simp add: starved_def)
  have b: "\<forall>es' st''. run h es' st' = Some st'' \<longrightarrow>
             FromSendCh \<notin> set es' \<and> timersMade st'' = timersMade st
             \<and> (\<forall>x. Delivered x \<in> set (loop_out st'') \<longrightarrow> Delivered x \<in> set (loop_out st))"
  proof (intro allI impI)
    fix es' st'' assume "run h es' st' = Some st''"
    from starved_run [OF s this]
    have r1: "timersMade st'' = timersMade st'" and r2: "FromSendCh \<notin> set es'"
      and r3: "\<forall>x. Delivered x \<in> set (loop_out st'') \<longrightarrow> Delivered x \<in> set (loop_out st')"
      by simp_all
    from r3 a3 have "\<forall>x. Delivered x \<in> set (loop_out st'') \<longrightarrow> Delivered x \<in> set (loop_out st)"
      by simp
    with r1 r2 a4
    show "FromSendCh \<notin> set es' \<and> timersMade st'' = timersMade st
             \<and> (\<forall>x. Delivered x \<in> set (loop_out st'') \<longrightarrow> Delivered x \<in> set (loop_out st))"
      by simp
  qed
  show ?thesis
    apply (intro conjI)
           apply (rule a1)
          apply (rule a2)
         apply (rule a3)
        apply (rule a4)
       apply (rule a5)
      apply (rule a6)
     apply (rule a7)
    apply (rule b)
    done
qed

theorem full_channel_arms_no_timer_witness:
  "run list_ops [FromCh 1, FromSendCh, FromCh 2] (start_loop [])
     = Some \<lparr>loop_snap = [1, 2], coalesceTimer = Some 1, snapCh = [[1]],
             sendCh_senders = [1], timersMade = 2, returned = False,
             loop_out = [AfterFunc 0 coalesceTimeout, Delivered [1],
                         AfterFunc 1 coalesceTimeout]\<rparr>
   \<and> run_step list_ops FromSendCh
         \<lparr>loop_snap = [1, 2], coalesceTimer = Some 1, snapCh = [[1]],
          sendCh_senders = [1], timersMade = 2, returned = False,
          loop_out = [AfterFunc 0 coalesceTimeout, Delivered [1],
                      AfterFunc 1 coalesceTimeout]\<rparr>
     = Some \<lparr>loop_snap = [1, 2], coalesceTimer = Some 1, snapCh = [[1]],
             sendCh_senders = [], timersMade = 2, returned = False,
             loop_out = [AfterFunc 0 coalesceTimeout, Delivered [1],
                         AfterFunc 1 coalesceTimeout,
                         LogTrace ''Failed to deliver new snapshot to proxy config watchers'']\<rparr>
   \<and> run list_ops [ConsumerReceives, FromCh 3]
         \<lparr>loop_snap = [1, 2], coalesceTimer = Some 1, snapCh = [[1]],
          sendCh_senders = [], timersMade = 2, returned = False,
          loop_out = [AfterFunc 0 coalesceTimeout, Delivered [1],
                      AfterFunc 1 coalesceTimeout,
                      LogTrace ''Failed to deliver new snapshot to proxy config watchers'']\<rparr>
     = Some \<lparr>loop_snap = [1, 2, 3], coalesceTimer = Some 1, snapCh = [],
             sendCh_senders = [], timersMade = 2, returned = False,
             loop_out = [AfterFunc 0 coalesceTimeout, Delivered [1],
                         AfterFunc 1 coalesceTimeout,
                         LogTrace ''Failed to deliver new snapshot to proxy config watchers'']\<rparr>
   \<and> run_step list_ops FromSendCh
         \<lparr>loop_snap = [1, 2, 3], coalesceTimer = Some 1, snapCh = [],
          sendCh_senders = [], timersMade = 2, returned = False,
          loop_out = [AfterFunc 0 coalesceTimeout, Delivered [1],
                      AfterFunc 1 coalesceTimeout,
                      LogTrace ''Failed to deliver new snapshot to proxy config watchers'']\<rparr>
     = None"
proof -
  let ?A = "\<lparr>loop_snap = [1, 2], coalesceTimer = Some 1, snapCh = [[1]],
             sendCh_senders = [1], timersMade = 2, returned = False,
             loop_out = [AfterFunc 0 coalesceTimeout, Delivered [1::nat],
                         AfterFunc 1 coalesceTimeout]\<rparr>"
  let ?B = "?A\<lparr>sendCh_senders := [],
               loop_out := loop_out ?A
                 @ [LogTrace ''Failed to deliver new snapshot to proxy config watchers'']\<rparr>"
  have r: "run list_ops [FromCh 1, FromSendCh, FromCh 2] (start_loop []) = Some ?A"
    by (simp add: list_ops_def start_loop_def after_select_def arm_timer_def say_def
                  snapCh_capacity_def Let_def)
  have t: "run_step list_ops FromSendCh ?A = Some ?B"
    by (simp add: list_ops_def say_def snapCh_capacity_def Let_def)
  have f: "length (snapCh ?A) = snapCh_capacity" by (simp add: snapCh_capacity_def)
  have c: "Clone list_ops (loop_snap ?A) = Some [1, 2]" by (simp add: list_ops_def)
  have u: "run list_ops [ConsumerReceives, FromCh 3] ?B
             = Some (?B\<lparr>loop_snap := [1, 2, 3], snapCh := []\<rparr>)"
    by (simp add: list_ops_def after_select_def)
  from full_channel_arms_no_timer [OF r t f c] u
  have m: "timersMade (?B\<lparr>loop_snap := [1, 2, 3], snapCh := []\<rparr>) = timersMade ?A"
    by blast
  have n: "run_step list_ops FromSendCh (?B\<lparr>loop_snap := [1, 2, 3], snapCh := []\<rparr>) = None"
    by simp
  from m r t u n show ?thesis by simp
qed

section \<open>Properties of the on-demand request\<close>

text \<open>
  The two branches of the request case that send on the reply channel: nil when the
  snapshot is not valid, and what \<open>Clone\<close> returned when it is valid and \<open>Clone\<close>
  returns no error. Nothing else changes, the internal snapshot included.
\<close>

lemma request_replies:
  assumes "\<not> returned st"
  shows "(\<not> Valid h (loop_snap st) \<longrightarrow>
            run_step h (FromReqCh replyCh) st
              = Some (st\<lparr>loop_out := loop_out st @ [Replied replyCh None]\<rparr>))
       \<and> (Valid h (loop_snap st) \<and> Clone h (loop_snap st) = Some snapCopy \<longrightarrow>
            run_step h (FromReqCh replyCh) st
              = Some (st\<lparr>loop_out := loop_out st @ [Replied replyCh (Some snapCopy)]\<rparr>))"
  using assms by (simp add: say_def)





section \<open>Properties of the gateway-services update of a terminating gateway\<close>

lemma delete_is_filter: "AList.delete k m = filter (\<lambda>(k', v). k' \<noteq> k) m"
  by (induction m) (auto simp: AList.delete_eq)

lemma fold_delete_absent:
  "fold (\<lambda>(sn, _) m'. if sn \<in> S then m' else AList.delete sn m') xs m
     = filter (\<lambda>(k, v). k \<in> S \<or> k \<notin> map_keys xs) m"
proof (induction xs arbitrary: m)
  case Nil
  then show ?case by (simp add: map_keys_def)
next
  case (Cons x xs)
  obtain sn c where x: "x = (sn, c)" by (cases x)
  show ?case
  proof (cases "sn \<in> S")
    case True
    have "filter (\<lambda>(k, v). k \<in> S \<or> k \<notin> map_keys ((sn, c) # xs)) m
            = filter (\<lambda>(k, v). k \<in> S \<or> k \<notin> map_keys xs) m"
      using True by (intro filter_cong) (auto simp: map_keys_def)
    with True x show ?thesis by (simp add: Cons.IH)
  next
    case False
    have "filter (\<lambda>(k, v). k \<in> S \<or> k \<notin> map_keys xs) (AList.delete sn m)
            = filter (\<lambda>(k, v). k \<in> S \<or> k \<notin> map_keys ((sn, c) # xs)) m"
      using False unfolding delete_is_filter filter_filter
      by (intro filter_cong) (auto simp: map_keys_def)
    with False x show ?thesis by (simp add: Cons.IH)
  qed
qed

lemma delete_absent_filter: "delete_absent S m = filter (\<lambda>(k, v). k \<in> S) m"
proof -
  have "filter (\<lambda>(k, v). k \<in> S \<or> k \<notin> map_keys m) m = filter (\<lambda>(k, v). k \<in> S) m"
    by (intro filter_cong) (force simp: map_keys_def)+
  then show ?thesis by (simp add: delete_absent_def fold_delete_absent)
qed

lemma map_keys_filter: "map_keys (filter (\<lambda>(k, v). P k) m) = {k \<in> map_keys m. P k}"
  by (auto simp: map_keys_def)

lemma map_of_filter_key:
  "map_of (filter (\<lambda>(k, v). P k) m) k' = (if P k' then map_of m k' else None)"
  by (induction m) auto

lemma map_keys_dom: "map_keys m = dom (map_of m)"
  by (simp add: map_keys_def dom_map_of_conv_image_fst)

lemma map_keys_update: "map_keys (AList.update k v m) = insert k (map_keys m)"
  by (simp add: map_keys_dom update_conv' )

lemma watched_set_watched [simp]:
  "watched j (set_watched i m x) = (if i = j then m else watched j x)"
  by (cases i; cases j) simp_all

lemma watched_purge_mirrored [simp]: "watched j (purge_mirrored i sn x) = watched j x"
  by (cases i; cases j) simp_all

lemma set_watched_purge_mirrored:
  "set_watched i m (purge_mirrored j sn x) = purge_mirrored j sn (set_watched i m x)"
  by (cases i; cases j) simp_all

lemma set_watched_twice [simp]: "set_watched i m (set_watched i m' x) = set_watched i m x"
  by (cases i) simp_all

lemma set_watched_same [simp]: "set_watched i (watched i x) x = x"
  by (cases i) simp_all

lemma purge_all_Nil [simp]: "purge_all i [] x = x"
  by (simp add: purge_all_def)

lemma purge_all_Cons [simp]: "purge_all i (k # ks) x = purge_all i ks (purge_mirrored i k x)"
  by (simp add: purge_all_def)

lemma watched_purge_all [simp]: "watched j (purge_all i ks x) = watched j x"
  by (induction ks arbitrary: x) simp_all

lemma fold_cancel_absent:
  "fold (\<lambda>(sn, cancelFn) (snap, w).
             if sn \<in> S then (snap, w)
             else (purge_mirrored i sn (set_watched i (AList.delete sn (watched i snap)) snap),
                   emit (Cancel cancelFn) w))
        xs (snap, w)
   = (purge_all i (map fst (absent_entries S xs))
        (set_watched i
           (filter (\<lambda>(k, v). k \<notin> map_keys (absent_entries S xs)) (watched i snap)) snap),
      w\<lparr>effects_log := effects_log w @ map (\<lambda>(k, c). Cancel c) (absent_entries S xs)\<rparr>)"
proof (induction xs arbitrary: snap w)
  case Nil
  then show ?case by (simp add: absent_entries_def map_keys_def)
next
  case (Cons x xs)
  obtain sn c where x: "x = (sn, c)" by (cases x)
  show ?case
  proof (cases "sn \<in> S")
    case True
    with x show ?thesis by (simp add: Cons.IH absent_entries_def)
  next
    case False
    have f: "filter (\<lambda>(k, v). k \<notin> map_keys (absent_entries S xs))
                    (AList.delete sn (watched i snap))
             = filter (\<lambda>(k, v). k \<notin> map_keys ((sn, c) # absent_entries S xs)) (watched i snap)"
      unfolding delete_is_filter filter_filter
      by (intro filter_cong) (auto simp: map_keys_def)
    have a: "absent_entries S ((sn, c) # xs) = (sn, c) # absent_entries S xs"
      using False by (simp add: absent_entries_def)
    show ?thesis
      unfolding x a using False
      by (simp add: Cons.IH set_watched_purge_mirrored f emit_def)
  qed
qed

lemma cancel_absent_eq:
  "cancel_absent S i (snap, w)
   = (purge_all i (map fst (absent_entries S (watched i snap)))
        (set_watched i (filter (\<lambda>(k, v). k \<in> S) (watched i snap)) snap),
      w\<lparr>effects_log := effects_log w
                          @ map (\<lambda>(k, c). Cancel c) (absent_entries S (watched i snap))\<rparr>)"
proof -
  have "filter (\<lambda>(k, v). k \<notin> map_keys (absent_entries S (watched i snap))) (watched i snap)
        = filter (\<lambda>(k, v). k \<in> S) (watched i snap)"
    by (intro filter_cong) (force simp: absent_entries_def map_keys_def)+
  then show ?thesis by (simp add: cancel_absent_def fold_cancel_absent)
qed

lemma data_set_watched [simp]:
  "Intentions (set_watched i m x) = Intentions x"
  "ServiceLeaves (set_watched i m x) = ServiceLeaves x"
  "ServiceConfigs (set_watched i m x) = ServiceConfigs x"
  "ServiceResolvers (set_watched i m x) = ServiceResolvers x"
  "ServiceResolversSet (set_watched i m x) = ServiceResolversSet x"
  "ServiceGroups (set_watched i m x) = ServiceGroups x"
  "HostnameServices (set_watched i m x) = HostnameServices x"
  "GatewayServices (set_watched i m x) = GatewayServices x"
  by (cases i; simp)+

lemma opens_only_refl: "opens_only str S sw sw"
  by (simp add: opens_only_def data_unchanged_def)

lemma opens_only_mono: "opens_only str S sw sw' \<Longrightarrow> S \<subseteq> T \<Longrightarrow> opens_only str T sw sw'"
  unfolding opens_only_def by (elim exE conjE, rule exI) blast

lemma opens_only_trans:
  assumes a: "opens_only str S sw sw'" and b: "opens_only str S sw' sw''"
  shows "opens_only str S sw sw''"
proof -
  from a obtain n1 where
    a1: "effects_log (snd sw') = effects_log (snd sw) @ n1"
    and a2: "\<And>j k c. map_of (watched j (fst sw)) k = Some c
                    \<Longrightarrow> map_of (watched j (fst sw')) k = Some c"
    and a3: "\<And>j. map_keys (watched j (fst sw')) \<subseteq> map_keys (watched j (fst sw)) \<union> S"
    and a4: "\<And>j k. k \<notin> map_keys (watched j (fst sw)) \<Longrightarrow> k \<in> map_keys (watched j (fst sw'))
                  \<Longrightarrow> (\<exists>h. map_of (watched j (fst sw')) k = Some h
                           \<and> Notify h (watch_cache_type j) (watch_prefix j @ str k) [] \<in> set n1)"
    and a5: "data_unchanged (fst sw) (fst sw')"
    and a6: "map_keys (GatewayServices (fst sw)) \<subseteq> map_keys (GatewayServices (fst sw'))"
    and a7: "map_keys (GatewayServices (fst sw')) \<subseteq> map_keys (GatewayServices (fst sw)) \<union> S"
    unfolding opens_only_def by blast
  from b obtain n2 where
    b1: "effects_log (snd sw'') = effects_log (snd sw') @ n2"
    and b2: "\<And>j k c. map_of (watched j (fst sw')) k = Some c
                    \<Longrightarrow> map_of (watched j (fst sw'')) k = Some c"
    and b3: "\<And>j. map_keys (watched j (fst sw'')) \<subseteq> map_keys (watched j (fst sw')) \<union> S"
    and b4: "\<And>j k. k \<notin> map_keys (watched j (fst sw')) \<Longrightarrow> k \<in> map_keys (watched j (fst sw''))
                  \<Longrightarrow> (\<exists>h. map_of (watched j (fst sw'')) k = Some h
                           \<and> Notify h (watch_cache_type j) (watch_prefix j @ str k) [] \<in> set n2)"
    and b5: "data_unchanged (fst sw') (fst sw'')"
    and b6: "map_keys (GatewayServices (fst sw')) \<subseteq> map_keys (GatewayServices (fst sw''))"
    and b7: "map_keys (GatewayServices (fst sw'')) \<subseteq> map_keys (GatewayServices (fst sw')) \<union> S"
    unfolding opens_only_def by blast
  have c4: "\<exists>h. map_of (watched j (fst sw'')) k = Some h
              \<and> Notify h (watch_cache_type j) (watch_prefix j @ str k) [] \<in> set (n1 @ n2)"
    if "k \<notin> map_keys (watched j (fst sw))" "k \<in> map_keys (watched j (fst sw''))" for j k
  proof (cases "k \<in> map_keys (watched j (fst sw'))")
    case True
    from a4 [OF that(1) True] obtain h where
      "map_of (watched j (fst sw')) k = Some h"
      "Notify h (watch_cache_type j) (watch_prefix j @ str k) [] \<in> set n1" by blast
    with b2 show ?thesis by auto
  next
    case False
    from b4 [OF False that(2)] show ?thesis by auto
  qed
  show ?thesis
    unfolding opens_only_def
  proof (rule exI [of _ "n1 @ n2"], intro conjI allI impI)
    show "effects_log (snd sw'') = effects_log (snd sw) @ n1 @ n2" using a1 b1 by simp
    show "map_of (watched j (fst sw'')) k = Some c"
      if "map_of (watched j (fst sw)) k = Some c" for j k c
      using that a2 b2 by blast
    show "map_keys (watched j (fst sw'')) \<subseteq> map_keys (watched j (fst sw)) \<union> S" for j
      using a3 [of j] b3 [of j] by blast
    show "\<exists>h. map_of (watched j (fst sw'')) k = Some h
              \<and> Notify h (watch_cache_type j) (watch_prefix j @ str k) [] \<in> set (n1 @ n2)"
      if "k \<notin> map_keys (watched j (fst sw))" "k \<in> map_keys (watched j (fst sw''))" for j k
      using that by (rule c4)
    show "data_unchanged (fst sw) (fst sw'')"
      using a5 b5 by (simp add: data_unchanged_def)
    show "map_keys (GatewayServices (fst sw)) \<subseteq> map_keys (GatewayServices (fst sw''))"
      using a6 b6 by blast
    show "map_keys (GatewayServices (fst sw'')) \<subseteq> map_keys (GatewayServices (fst sw)) \<union> S"
      using a7 b7 by blast
  qed
qed

lemma steps_Cons_ok:
  assumes "steps (f # fs) st = (st', None)"
  obtains st1 where "f st = (st1, None)" and "steps fs st1 = (st', None)"
  using assms by (auto split: prod.splits option.splits)

lemma ensure_watch_ok:
  assumes "ensure_watch s str sn i sw = (sw', None)"
  shows "opens_only str {sn} sw sw'" and "sn \<in> map_keys (watched i (fst sw'))"
proof -
  obtain snap w where sw: "sw = (snap, w)" by (cases sw)
  have "opens_only str {sn} sw sw' \<and> sn \<in> map_keys (watched i (fst sw'))"
  proof (cases "map_of (watched i snap) sn")
    case (Some c)
    with assms sw have "sw' = sw" by (simp add: ensure_watch_def)
    with Some sw show ?thesis
      by (auto simp: opens_only_refl map_keys_dom)
  next
    case None
    let ?cid = "watch_prefix i @ str sn"
    let ?h = "nextCtx w"
    from assms sw None have nf: "\<not> watch_notifier s i ?cid"
      by (auto simp: ensure_watch_def start_watch_def WithCancel_def Let_def split: if_splits)
    with assms sw None
    have sw': "sw' = (set_watched i (AList.update sn ?h (watched i snap)) snap,
                      w\<lparr>nextCtx := Suc (nextCtx w),
                        effects_log := effects_log w
                           @ [Notify ?h (watch_cache_type i) ?cid []]\<rparr>)"
      by (simp add: ensure_watch_def start_watch_def WithCancel_def emit_def Let_def)
    have k: "sn \<in> map_keys (watched i (fst sw'))"
      unfolding sw' by (simp add: map_keys_update)
    have "opens_only str {sn} sw sw'"
      unfolding opens_only_def sw sw'
    proof (rule exI [of _ "[Notify ?h (watch_cache_type i) ?cid []]"], intro conjI allI impI)
      fix j k c
      assume "map_of (watched j (fst (snap, w))) k = Some c"
      with None show "map_of (watched j (fst (set_watched i (AList.update sn ?h (watched i snap)) snap,
                      w\<lparr>nextCtx := Suc (nextCtx w),
                        effects_log := effects_log w
                           @ [Notify ?h (watch_cache_type i) ?cid []]\<rparr>))) k = Some c"
        by (auto simp: update_conv')
    next
      fix j k
      assume "k \<notin> map_keys (watched j (fst (snap, w)))"
        and "k \<in> map_keys (watched j (fst (set_watched i (AList.update sn ?h (watched i snap)) snap,
                      w\<lparr>nextCtx := Suc (nextCtx w),
                        effects_log := effects_log w
                           @ [Notify ?h (watch_cache_type i) ?cid []]\<rparr>)))"
      then have "j = i \<and> k = sn" by (auto simp: map_keys_update split: if_splits)
      then show "\<exists>h. map_of (watched j (fst (set_watched i (AList.update sn ?h (watched i snap)) snap,
                      w\<lparr>nextCtx := Suc (nextCtx w),
                        effects_log := effects_log w
                           @ [Notify ?h (watch_cache_type i) ?cid []]\<rparr>))) k = Some h
                  \<and> Notify h (watch_cache_type j) (watch_prefix j @ str k) []
                      \<in> set [Notify ?h (watch_cache_type i) ?cid []]"
        by (simp add: update_conv')
    qed (auto simp: map_keys_update data_unchanged_def)
    with k show ?thesis by simp
  qed
  then show "opens_only str {sn} sw sw'" and "sn \<in> map_keys (watched i (fst sw'))"
    by simp_all
qed

lemma store_gateway_service_ok:
  assumes "store_gateway_service svc sw = (sw', None)"
  shows "opens_only str {gs_Service svc} sw sw'"
    and "gs_Service svc \<in> map_keys (GatewayServices (fst sw'))"
proof -
  obtain snap w where sw: "sw = (snap, w)" by (cases sw)
  with assms have sw': "sw' = (snap\<lparr>GatewayServices :=
                                 AList.update (gs_Service svc) svc (GatewayServices snap)\<rparr>, w)"
    by (simp add: store_gateway_service_def)
  have w: "watched j (snap\<lparr>GatewayServices := m\<rparr>) = watched j snap" for j m
    by (cases j) simp_all
  show "opens_only str {gs_Service svc} sw sw'"
    unfolding sw sw' opens_only_def
    by (rule exI [of _ "[]"]) (auto simp: w map_keys_update data_unchanged_def)
  show "gs_Service svc \<in> map_keys (GatewayServices (fst sw'))"
    unfolding sw' by (simp add: map_keys_update)
qed

lemma opens_only_keeps_keys:
  assumes "opens_only str S sw sw'" and "k \<in> map_keys (watched j (fst sw))"
  shows "k \<in> map_keys (watched j (fst sw'))"
proof -
  from assms(2) obtain c where "map_of (watched j (fst sw)) k = Some c"
    by (auto simp: map_keys_dom)
  with assms(1) have "map_of (watched j (fst sw')) k = Some c"
    unfolding opens_only_def by blast
  then show ?thesis by (auto simp: map_keys_dom)
qed

lemma opens_only_keeps_gateway_services:
  assumes "opens_only str S sw sw'" and "k \<in> map_keys (GatewayServices (fst sw))"
  shows "k \<in> map_keys (GatewayServices (fst sw'))"
  using assms unfolding opens_only_def by blast

lemma opens_only_keeps_fully_watched:
  assumes "opens_only str S sw sw'" and "fully_watched k (fst sw)"
  shows "fully_watched k (fst sw')"
  using assms opens_only_keeps_keys [OF assms(1)] opens_only_keeps_gateway_services [OF assms(1)]
  unfolding fully_watched_def by blast

lemma watch_linked_service_ok:
  assumes "watch_linked_service s str svc sw = (sw', None)"
  shows "opens_only str {gs_Service svc} sw sw'" and "fully_watched (gs_Service svc) (fst sw')"
proof -
  let ?sn = "gs_Service svc"
  let ?R = "opens_only str {?sn}"
  note tr = opens_only_trans [of str "{?sn}"]
  from assms have run:
    "steps [store_gateway_service svc,
            ensure_watch s str ?sn ExternalService, ensure_watch s str ?sn ServiceIntentions,
            ensure_watch s str ?sn ServiceLeaf, ensure_watch s str ?sn ServiceConfig,
            ensure_watch s str ?sn ServiceResolver] sw = (sw', None)"
    by (simp add: watch_linked_service_def)
  from run obtain a where a: "store_gateway_service svc sw = (a, None)"
    and ra: "steps [ensure_watch s str ?sn ExternalService, ensure_watch s str ?sn ServiceIntentions,
            ensure_watch s str ?sn ServiceLeaf, ensure_watch s str ?sn ServiceConfig,
            ensure_watch s str ?sn ServiceResolver] a = (sw', None)"
    by (rule steps_Cons_ok)
  from ra obtain b where b: "ensure_watch s str ?sn ExternalService a = (b, None)"
    and rb: "steps [ensure_watch s str ?sn ServiceIntentions,
            ensure_watch s str ?sn ServiceLeaf, ensure_watch s str ?sn ServiceConfig,
            ensure_watch s str ?sn ServiceResolver] b = (sw', None)"
    by (rule steps_Cons_ok)
  from rb obtain c where c: "ensure_watch s str ?sn ServiceIntentions b = (c, None)"
    and rc: "steps [ensure_watch s str ?sn ServiceLeaf, ensure_watch s str ?sn ServiceConfig,
            ensure_watch s str ?sn ServiceResolver] c = (sw', None)"
    by (rule steps_Cons_ok)
  from rc obtain d where d: "ensure_watch s str ?sn ServiceLeaf c = (d, None)"
    and rd: "steps [ensure_watch s str ?sn ServiceConfig,
            ensure_watch s str ?sn ServiceResolver] d = (sw', None)"
    by (rule steps_Cons_ok)
  from rd obtain e where e: "ensure_watch s str ?sn ServiceConfig d = (e, None)"
    and re: "steps [ensure_watch s str ?sn ServiceResolver] e = (sw', None)"
    by (rule steps_Cons_ok)
  from re have f: "ensure_watch s str ?sn ServiceResolver e = (sw', None)"
    by (auto split: prod.splits option.splits)
  note Ra1 = store_gateway_service_ok(1) [OF a, where str = str]
    and Ra2 = store_gateway_service_ok(2) [OF a]
  note Rb = ensure_watch_ok [OF b] and Rc = ensure_watch_ok [OF c] and Rd = ensure_watch_ok [OF d]
    and Re = ensure_watch_ok [OF e] and Rf = ensure_watch_ok [OF f]
  have Rbf: "?R b sw'" by (rule tr [OF Rc(1) tr [OF Rd(1) tr [OF Re(1) Rf(1)]]])
  have Rcf: "?R c sw'" by (rule tr [OF Rd(1) tr [OF Re(1) Rf(1)]])
  have Rdf: "?R d sw'" by (rule tr [OF Re(1) Rf(1)])
  have Raf: "?R a sw'" by (rule tr [OF Rb(1) Rbf])
  show "?R sw sw'" by (rule tr [OF Ra1 Raf])
  have "?sn \<in> map_keys (watched j (fst sw'))" for j
  proof (cases j)
    case ExternalService
    with opens_only_keeps_keys [OF Rbf Rb(2)] show ?thesis by simp
  next
    case ServiceIntentions
    with opens_only_keeps_keys [OF Rcf Rc(2)] show ?thesis by simp
  next
    case ServiceLeaf
    with opens_only_keeps_keys [OF Rdf Rd(2)] show ?thesis by simp
  next
    case ServiceConfig
    with opens_only_keeps_keys [OF Rf(1) Re(2)] show ?thesis by simp
  next
    case ServiceResolver
    with Rf(2) show ?thesis by simp
  qed
  moreover have "?sn \<in> map_keys (GatewayServices (fst sw'))"
    by (rule opens_only_keeps_gateway_services [OF Raf Ra2])
  ultimately show "fully_watched ?sn (fst sw')" by (simp add: fully_watched_def)
qed

lemma watch_linked_services_ok:
  assumes "steps (map (watch_linked_service s str) services) sw = (sw', None)"
  shows "opens_only str (set (map gs_Service services)) sw sw'
         \<and> (\<forall>svc\<in>set services. fully_watched (gs_Service svc) (fst sw'))"
  using assms
proof (induction services arbitrary: sw)
  case Nil
  then show ?case by (simp add: opens_only_refl)
next
  case (Cons svc services)
  let ?S = "set (map gs_Service (svc # services))"
  from Cons.prems
  have "steps (watch_linked_service s str svc # map (watch_linked_service s str) services) sw
          = (sw', None)" by simp
  then obtain a where a: "watch_linked_service s str svc sw = (a, None)"
    and r: "steps (map (watch_linked_service s str) services) a = (sw', None)"
    by (rule steps_Cons_ok)
  from Cons.IH [OF r] have ih: "opens_only str (set (map gs_Service services)) a sw'"
    and fw: "\<forall>x\<in>set services. fully_watched (gs_Service x) (fst sw')" by simp_all
  note A = watch_linked_service_ok [OF a]
  have "opens_only str ?S sw a" by (rule opens_only_mono [OF A(1)]) simp
  moreover have "opens_only str ?S a sw'" by (rule opens_only_mono [OF ih]) auto
  ultimately have R: "opens_only str ?S sw sw'" by (rule opens_only_trans)
  have "fully_watched (gs_Service svc) (fst sw')"
    by (rule opens_only_keeps_fully_watched [OF ih A(2)])
  with fw R show ?case by simp
qed

lemma map_keys_delete: "map_keys (AList.delete k m) = map_keys m - {k}"
  by (simp add: map_keys_dom delete_conv')

lemma mirrored_keys_set_watched [simp]:
  "mirrored_keys j (set_watched i m x) = mirrored_keys j x"
  by (cases j) simp_all

lemma mirrored_keys_purge_mirrored:
  "mirrored_keys j (purge_mirrored i k x)
     = (if i = j then mirrored_keys j x - {k} else mirrored_keys j x)"
  by (cases i; cases j) (auto simp: map_keys_delete)

lemma mirrored_keys_purge_all:
  "mirrored_keys j (purge_all i ks x)
     = (if i = j then mirrored_keys j x - set ks else mirrored_keys j x)"
  by (induction ks arbitrary: x) (auto simp: mirrored_keys_purge_mirrored)

lemma gateway_services_purge_mirrored [simp]:
  "GatewayServices (purge_mirrored i k x) = GatewayServices x"
  "HostnameServices (purge_mirrored i k x) = HostnameServices x"
  by (cases i; simp)+

lemma gateway_services_purge_all [simp]:
  "GatewayServices (purge_all i ks x) = GatewayServices x"
  "HostnameServices (purge_all i ks x) = HostnameServices x"
  by (induction ks arbitrary: x) simp_all

lemma cancel_passes:
  assumes "distinct is" and "fold (cancel_absent S) is (x, w) = (y, w')"
  shows "(\<forall>j. watched j y = (if j \<in> set is then filter (\<lambda>(k, v). k \<in> S) (watched j x)
                               else watched j x))
       \<and> (\<forall>j. mirrored_keys j y
                 = (if j \<in> set is then mirrored_keys j x - (map_keys (watched j x) - S)
                    else mirrored_keys j x))
       \<and> effects_log w' = effects_log w @ concat (map (\<lambda>i. cancels_of S (watched i x)) is)
       \<and> GatewayServices y = GatewayServices x \<and> HostnameServices y = HostnameServices x"
  using assms
proof (induction "is" arbitrary: x w)
  case Nil
  then show ?case by simp
next
  case (Cons i "is")
  let ?x1 = "purge_all i (map fst (absent_entries S (watched i x)))
               (set_watched i (filter (\<lambda>(k, v). k \<in> S) (watched i x)) x)"
  let ?w1 = "w\<lparr>effects_log := effects_log w @ cancels_of S (watched i x)\<rparr>"
  from Cons.prems have d: "distinct is" and ni: "i \<notin> set is" by simp_all
  from Cons.prems(2) have r: "fold (cancel_absent S) is (?x1, ?w1) = (y, w')"
    by (simp add: cancel_absent_eq cancels_of_def)
  note ih = Cons.IH [OF d r]
  have k: "set (map fst (absent_entries S (watched j x))) = map_keys (watched j x) - S" for j
    by (auto simp: absent_entries_def map_keys_def)
  have w1: "watched j ?x1 = (if i = j then filter (\<lambda>(k, v). k \<in> S) (watched j x) else watched j x)"
    for j by simp
  have m1: "mirrored_keys j ?x1
             = (if i = j then mirrored_keys j x - (map_keys (watched j x) - S)
                else mirrored_keys j x)" for j
    using k [of j] by (simp add: mirrored_keys_purge_all del: set_map)
  have e: "concat (map (\<lambda>i. cancels_of S (watched i ?x1)) is)
           = concat (map (\<lambda>i. cancels_of S (watched i x)) is)"
    using ni by (intro arg_cong [where f = concat] map_cong) (auto simp: w1)
  show ?case
  proof (intro conjI allI)
    fix j
    from ih have "watched j y = (if j \<in> set is then filter (\<lambda>(k, v). k \<in> S) (watched j ?x1)
                               else watched j ?x1)" by blast
    with ni show "watched j y = (if j \<in> set (i # is)
                                 then filter (\<lambda>(k, v). k \<in> S) (watched j x) else watched j x)"
      by (auto simp: w1)
  next
    fix j
    from ih have "mirrored_keys j y
                 = (if j \<in> set is then mirrored_keys j ?x1 - (map_keys (watched j ?x1) - S)
                    else mirrored_keys j ?x1)" by blast
    with ni show "mirrored_keys j y
                 = (if j \<in> set (i # is) then mirrored_keys j x - (map_keys (watched j x) - S)
                    else mirrored_keys j x)"
      by (auto simp: w1 m1)
  next
    from ih have "effects_log w' = effects_log ?w1
                    @ concat (map (\<lambda>i. cancels_of S (watched i ?x1)) is)" by blast
    with e show "effects_log w' = effects_log w
                    @ concat (map (\<lambda>i. cancels_of S (watched i x)) (i # is))"
      by simp
  next
    from ih show "GatewayServices y = GatewayServices x" by simp
  next
    from ih show "HostnameServices y = HostnameServices x" by simp
  qed
qed

lemma watched_data_update [simp]:
  "watched j (x\<lparr>GatewayServices := m\<rparr>) = watched j x"
  "watched j (x\<lparr>HostnameServices := m'\<rparr>) = watched j x"
  by (cases j; simp)+

lemma mirrored_keys_data_update [simp]:
  "mirrored_keys j (x\<lparr>GatewayServices := m\<rparr>) = mirrored_keys j x"
  "mirrored_keys j (x\<lparr>HostnameServices := m'\<rparr>) = mirrored_keys j x"
  by (cases j; simp)+

lemma data_unchanged_mirrored_keys:
  "data_unchanged x y \<Longrightarrow> mirrored_keys j y = mirrored_keys j x"
  by (cases j) (simp_all add: data_unchanged_def)

lemma all_watches: "j \<in> set [ExternalService, ServiceLeaf, ServiceConfig, ServiceResolver,
                              ServiceIntentions]"
  by (cases j) simp_all

lemma handleUpdate_gatewayServices_ok:
  assumes ev: "\<not> Err u" "CorrelationID u = gatewayServicesWatchID"
      "Result u = IndexedGatewayServices services"
    and ok: "handleUpdate_gatewayServices s str u (snap, w) = Some ((snap', w'), None)"
  obtains snap1 w1 where
    "steps (map (watch_linked_service s str) services) (snap, w) = ((snap1, w1), None)"
    "fold (cancel_absent (set (map gs_Service services)))
       [ExternalService, ServiceLeaf, ServiceConfig, ServiceResolver, ServiceIntentions]
       (snap1\<lparr>GatewayServices :=
                 filter (\<lambda>(k, v). k \<in> set (map gs_Service services)) (GatewayServices snap1),
               HostnameServices :=
                 filter (\<lambda>(k, v). k \<in> set (map gs_Service services)) (HostnameServices snap1)\<rparr>,
        w1)
     = (snap', w')"
proof -
  obtain sw1 e where p: "steps (map (watch_linked_service s str) services) (snap, w) = (sw1, e)"
    by (cases "steps (map (watch_linked_service s str) services) (snap, w)")
  obtain snap1 w1 where sw1: "sw1 = (snap1, w1)" by (cases sw1)
  from ok ev p have e: "e = None"
    by (cases e) (simp_all add: handleUpdate_gatewayServices_def)
  from ok ev p e sw1 have
    "fold (cancel_absent (set (map gs_Service services)))
       [ExternalService, ServiceLeaf, ServiceConfig, ServiceResolver, ServiceIntentions]
       (snap1\<lparr>GatewayServices :=
                 filter (\<lambda>(k, v). k \<in> set (map gs_Service services)) (GatewayServices snap1),
               HostnameServices :=
                 filter (\<lambda>(k, v). k \<in> set (map gs_Service services)) (HostnameServices snap1)\<rparr>,
        w1)
     = (snap', w')"
    by (simp add: handleUpdate_gatewayServices_def delete_absent_filter Let_def del: set_map)
  with p e sw1 that show thesis by simp
qed

text \<open>
  Claim C3 says that every mirrored entry of a service that is no longer delivered is
  purged. The loops over GatewayServices and HostnameServices delete by their own keys,
  but the entries of ServiceGroups, ServiceLeaves, ServiceConfigs, ServiceResolvers,
  ServiceResolversSet and Intentions are deleted only inside the loops over
  WatchedServices, WatchedLeaves, WatchedConfigs, WatchedResolvers and WatchedIntentions.
  In \<open>stale_snapshot\<close> the service \<open>svcX\<close> has mirrored entries and no watch: the
  update that delivers \<open>svcY\<close> alone is handled without error, deletes the entry of
  \<open>svcX\<close> in HostnameServices and leaves its six other entries.
\<close>

theorem gateway_services_stale_entries:
  "\<not> Err (gateway_services_event [svcY])
   \<and> CorrelationID (gateway_services_event [svcY]) = gatewayServicesWatchID
   \<and> Result (gateway_services_event [svcY]) = IndexedGatewayServices [linked svcY]
   \<and> svcX \<notin> set (map gs_Service [linked svcY])
   \<and> handleUpdate_gatewayServices scenario4_handler sn_Name (gateway_services_event [svcY])
         (stale_snapshot, \<lparr>nextCtx = 10, effects_log = []\<rparr>)
       = Some ((stale_after, \<lparr>nextCtx = 10, effects_log = []\<rparr>), None)
   \<and> svcX \<in> map_keys (ServiceGroups stale_after)
   \<and> svcX \<in> map_keys (ServiceLeaves stale_after)
   \<and> svcX \<in> map_keys (ServiceConfigs stale_after)
   \<and> svcX \<in> map_keys (ServiceResolvers stale_after)
   \<and> svcX \<in> map_keys (ServiceResolversSet stale_after)
   \<and> svcX \<in> map_keys (Intentions stale_after)"
proof -
  have ne: "svcX \<noteq> svcY" by (simp add: svcX_def svcY_def)
  have h4: "handleUpdate_gatewayServices scenario4_handler sn_Name (gateway_services_event [svcY])
         (stale_snapshot, \<lparr>nextCtx = 10, effects_log = []\<rparr>)
       = Some ((stale_after, \<lparr>nextCtx = 10, effects_log = []\<rparr>), None)"
    using ne ne [symmetric]
    by (simp add: handleUpdate_gatewayServices_def gateway_services_event_def
          gatewayServicesWatchID_def watch_linked_service_def store_gateway_service_def
          ensure_watch_def start_watch_def WithCancel_def emit_def scenario4_handler_def
          stale_snapshot_def stale_after_def linked_def delete_absent_def
          cancel_absent_def Let_def externalServiceIDPrefix_def serviceLeafIDPrefix_def
          serviceConfigIDPrefix_def serviceResolverIDPrefix_def serviceIntentionsIDPrefix_def)
  show ?thesis
    using ne h4
    by (simp add: gateway_services_event_def gatewayServicesWatchID_def linked_def
          stale_after_def map_keys_def)
qed

text \<open>
  Claim C3, amended. After a terminating-gateway gateway-services update that is handled
  without error, with \<open>S\<close> the set of delivered services: the key set of each of the
  five maps of watches is \<open>S\<close>; for every delivered service that a map of watches did
  not have, the watch of that map was opened (a call of \<open>Notify\<close> with the cache type
  and the correlation id of that watch, its cancel function stored under the service);
  for every service that is not delivered, each cancel function stored for it was
  called, its entries in GatewayServices and HostnameServices are gone, and the entries
  mirrored for a watch are gone if the service had that watch before the update:
  ServiceGroups with WatchedServices, ServiceLeaves with WatchedLeaves, ServiceConfigs
  with WatchedConfigs, ServiceResolvers and ServiceResolversSet with WatchedResolvers,
  Intentions with WatchedIntentions.
\<close>

theorem gateway_services_update:
  fixes snap snap' :: "'p configSnapshotTerminatingGateway"
  assumes ev: "\<not> Err u" "CorrelationID u = gatewayServicesWatchID"
      "Result u = IndexedGatewayServices services"
    and ok: "handleUpdate_gatewayServices s str u (snap, w) = Some ((snap', w'), None)"
  defines "S \<equiv> set (map gs_Service services)"
  shows "map_keys (WatchedServices snap') = S \<and> map_keys (WatchedIntentions snap') = S
       \<and> map_keys (WatchedLeaves snap') = S \<and> map_keys (WatchedConfigs snap') = S
       \<and> map_keys (WatchedResolvers snap') = S
       \<and> (\<exists>new. effects_log w' = effects_log w @ new
              \<and> (\<forall>j sn. sn \<in> S \<longrightarrow> sn \<notin> map_keys (watched j snap) \<longrightarrow>
                     (\<exists>h. map_of (watched j snap') sn = Some h
                         \<and> Notify h (watch_cache_type j) (watch_prefix j @ str sn) [] \<in> set new))
              \<and> (\<forall>j sn c. sn \<notin> S \<longrightarrow> map_of (watched j snap) sn = Some c \<longrightarrow>
                     Cancel c \<in> set new))
       \<and> (\<forall>sn. sn \<notin> S \<longrightarrow>
              sn \<notin> map_keys (GatewayServices snap') \<and> sn \<notin> map_keys (HostnameServices snap')
            \<and> (sn \<in> map_keys (WatchedServices snap) \<longrightarrow> sn \<notin> map_keys (ServiceGroups snap'))
            \<and> (sn \<in> map_keys (WatchedLeaves snap) \<longrightarrow> sn \<notin> map_keys (ServiceLeaves snap'))
            \<and> (sn \<in> map_keys (WatchedConfigs snap) \<longrightarrow> sn \<notin> map_keys (ServiceConfigs snap'))
            \<and> (sn \<in> map_keys (WatchedResolvers snap) \<longrightarrow>
                  sn \<notin> map_keys (ServiceResolvers snap')
                  \<and> sn \<notin> map_keys (ServiceResolversSet snap'))
            \<and> (sn \<in> map_keys (WatchedIntentions snap) \<longrightarrow> sn \<notin> map_keys (Intentions snap')))"
proof -
  let ?ws = "[ExternalService, ServiceLeaf, ServiceConfig, ServiceResolver, ServiceIntentions]"
  from ev ok obtain snap1 w1 where
    p1: "steps (map (watch_linked_service s str) services) (snap, w) = ((snap1, w1), None)"
    and p2: "fold (cancel_absent S) ?ws
       (snap1\<lparr>GatewayServices := filter (\<lambda>(k, v). k \<in> S) (GatewayServices snap1),
               HostnameServices := filter (\<lambda>(k, v). k \<in> S) (HostnameServices snap1)\<rparr>,
        w1)
     = (snap', w')"
    unfolding S_def by (rule handleUpdate_gatewayServices_ok)
  let ?snap3 = "snap1\<lparr>GatewayServices := filter (\<lambda>(k, v). k \<in> S) (GatewayServices snap1),
               HostnameServices := filter (\<lambda>(k, v). k \<in> S) (HostnameServices snap1)\<rparr>"
  from watch_linked_services_ok [OF p1]
  have R: "opens_only str S (snap, w) (snap1, w1)"
    and fw: "\<forall>svc\<in>set services. fully_watched (gs_Service svc) snap1"
    unfolding S_def by simp_all
  from R obtain n1 where
    r1: "effects_log w1 = effects_log w @ n1"
    and r2: "\<And>j k c. map_of (watched j snap) k = Some c \<Longrightarrow> map_of (watched j snap1) k = Some c"
    and r3: "\<And>j. map_keys (watched j snap1) \<subseteq> map_keys (watched j snap) \<union> S"
    and r4: "\<And>j k. k \<notin> map_keys (watched j snap) \<Longrightarrow> k \<in> map_keys (watched j snap1)
                  \<Longrightarrow> (\<exists>h. map_of (watched j snap1) k = Some h
                           \<and> Notify h (watch_cache_type j) (watch_prefix j @ str k) [] \<in> set n1)"
    and r5: "data_unchanged snap snap1"
    unfolding opens_only_def by auto
  have "distinct ?ws" by simp
  from cancel_passes [OF this p2]
  have c1: "\<And>j. watched j snap' = filter (\<lambda>(k, v). k \<in> S) (watched j snap1)"
    and c2: "\<And>j. mirrored_keys j snap' = mirrored_keys j snap1 - (map_keys (watched j snap1) - S)"
    and c3: "effects_log w' = effects_log w1 @ concat (map (\<lambda>i. cancels_of S (watched i snap1)) ?ws)"
    and c4: "GatewayServices snap' = filter (\<lambda>(k, v). k \<in> S) (GatewayServices snap1)"
    and c5: "HostnameServices snap' = filter (\<lambda>(k, v). k \<in> S) (HostnameServices snap1)"
    using all_watches by (simp_all del: set_simps)
  have sub: "S \<subseteq> map_keys (watched j snap1)" for j
    using fw unfolding S_def fully_watched_def by auto
  have keys: "map_keys (watched j snap') = S" for j
    using sub [of j] unfolding c1 map_keys_filter by auto
  let ?new = "n1 @ concat (map (\<lambda>i. cancels_of S (watched i snap1)) ?ws)"
  have e: "effects_log w' = effects_log w @ ?new" using c3 r1 by simp
  have opens: "\<exists>h. map_of (watched j snap') sn = Some h
                  \<and> Notify h (watch_cache_type j) (watch_prefix j @ str sn) [] \<in> set ?new"
    if "sn \<in> S" "sn \<notin> map_keys (watched j snap)" for j sn
  proof -
    from that(1) sub have "sn \<in> map_keys (watched j snap1)" by blast
    from r4 [OF that(2) this] obtain h where
      "map_of (watched j snap1) sn = Some h"
      "Notify h (watch_cache_type j) (watch_prefix j @ str sn) [] \<in> set n1" by blast
    with that(1) show ?thesis by (auto simp: c1 map_of_filter_key)
  qed
  have cancels: "Cancel c \<in> set ?new"
    if "sn \<notin> S" "map_of (watched j snap) sn = Some c" for j sn c
  proof -
    from r2 [OF that(2)] have "(sn, c) \<in> set (watched j snap1)" by (rule map_of_SomeD)
    with that(1) have "Cancel c \<in> set (cancels_of S (watched j snap1))"
      by (force simp: cancels_of_def absent_entries_def)
    moreover have "j \<in> set ?ws" by (rule all_watches)
    ultimately have "Cancel c \<in> set (concat (map (\<lambda>i. cancels_of S (watched i snap1)) ?ws))"
      unfolding set_concat by (intro UN_I [of "cancels_of S (watched j snap1)"]) auto
    then show ?thesis by simp
  qed
  have purge: "sn \<notin> mirrored_keys j snap'"
    if "sn \<notin> S" "sn \<in> map_keys (watched j snap)" for j sn
  proof -
    from that(2) obtain c where "map_of (watched j snap) sn = Some c"
      by (auto simp: map_keys_dom)
    from r2 [OF this] have "sn \<in> map_keys (watched j snap1)" by (auto simp: map_keys_dom)
    with that(1) show ?thesis by (simp add: c2)
  qed
  have data: "sn \<notin> map_keys (GatewayServices snap') \<and> sn \<notin> map_keys (HostnameServices snap')"
    if "sn \<notin> S" for sn
    using that by (simp add: c4 c5 map_keys_filter)
  have A: "map_keys (WatchedServices snap') = S \<and> map_keys (WatchedIntentions snap') = S
       \<and> map_keys (WatchedLeaves snap') = S \<and> map_keys (WatchedConfigs snap') = S
       \<and> map_keys (WatchedResolvers snap') = S"
    using keys [of ExternalService] keys [of ServiceIntentions] keys [of ServiceLeaf]
      keys [of ServiceConfig] keys [of ServiceResolver] by simp
  have B: "\<exists>new. effects_log w' = effects_log w @ new
              \<and> (\<forall>j sn. sn \<in> S \<longrightarrow> sn \<notin> map_keys (watched j snap) \<longrightarrow>
                     (\<exists>h. map_of (watched j snap') sn = Some h
                         \<and> Notify h (watch_cache_type j) (watch_prefix j @ str sn) [] \<in> set new))
              \<and> (\<forall>j sn c. sn \<notin> S \<longrightarrow> map_of (watched j snap) sn = Some c \<longrightarrow>
                     Cancel c \<in> set new)"
    using e opens cancels by (intro exI [of _ ?new]) blast
  have C: "\<forall>sn. sn \<notin> S \<longrightarrow>
              sn \<notin> map_keys (GatewayServices snap') \<and> sn \<notin> map_keys (HostnameServices snap')
            \<and> (sn \<in> map_keys (WatchedServices snap) \<longrightarrow> sn \<notin> map_keys (ServiceGroups snap'))
            \<and> (sn \<in> map_keys (WatchedLeaves snap) \<longrightarrow> sn \<notin> map_keys (ServiceLeaves snap'))
            \<and> (sn \<in> map_keys (WatchedConfigs snap) \<longrightarrow> sn \<notin> map_keys (ServiceConfigs snap'))
            \<and> (sn \<in> map_keys (WatchedResolvers snap) \<longrightarrow>
                  sn \<notin> map_keys (ServiceResolvers snap')
                  \<and> sn \<notin> map_keys (ServiceResolversSet snap'))
            \<and> (sn \<in> map_keys (WatchedIntentions snap) \<longrightarrow> sn \<notin> map_keys (Intentions snap'))"
  proof (intro allI impI)
    fix sn assume n: "sn \<notin> S"
    note p = purge [OF n]
    from data [OF n] p [of ExternalService] p [of ServiceLeaf] p [of ServiceConfig]
      p [of ServiceResolver] p [of ServiceIntentions]
    show "sn \<notin> map_keys (GatewayServices snap') \<and> sn \<notin> map_keys (HostnameServices snap')
            \<and> (sn \<in> map_keys (WatchedServices snap) \<longrightarrow> sn \<notin> map_keys (ServiceGroups snap'))
            \<and> (sn \<in> map_keys (WatchedLeaves snap) \<longrightarrow> sn \<notin> map_keys (ServiceLeaves snap'))
            \<and> (sn \<in> map_keys (WatchedConfigs snap) \<longrightarrow> sn \<notin> map_keys (ServiceConfigs snap'))
            \<and> (sn \<in> map_keys (WatchedResolvers snap) \<longrightarrow>
                  sn \<notin> map_keys (ServiceResolvers snap')
                  \<and> sn \<notin> map_keys (ServiceResolversSet snap'))
            \<and> (sn \<in> map_keys (WatchedIntentions snap) \<longrightarrow> sn \<notin> map_keys (Intentions snap'))"
      by simp
  qed
  from A B C show ?thesis by (intro conjI) simp_all
qed

theorem gateway_services_update_witness:
  "\<not> Err (gateway_services_event [svcY])
   \<and> CorrelationID (gateway_services_event [svcY]) = gatewayServicesWatchID
   \<and> Result (gateway_services_event [svcY]) = IndexedGatewayServices [linked svcY]
   \<and> handleUpdate_gatewayServices scenario4_handler sn_Name (gateway_services_event [svcY])
         (scenario4_snapshot, \<lparr>nextCtx = 5, effects_log = []\<rparr>)
       = Some ((scenario4_after,
                \<lparr>nextCtx = 10,
                 effects_log =
                   [Notify 5 HealthServices ''external-service:svcY'' [],
                    Notify 6 IntentionMatch ''service-intentions:svcY'' [],
                    Notify 7 ConnectCALeaf ''service-leaf:svcY'' [],
                    Notify 8 ResolvedServiceConfig ''service-config:svcY'' [],
                    Notify 9 ConfigEntries ''service-resolver:svcY'' [],
                    Cancel 0, Cancel 2, Cancel 3, Cancel 4, Cancel 1]\<rparr>), None)
   \<and> map_keys (WatchedServices scenario4_after) = {svcY}
   \<and> svcX \<in> map_keys (WatchedServices scenario4_snapshot)
   \<and> svcX \<notin> map_keys (ServiceGroups scenario4_after)"
proof -
  let ?u = "gateway_services_event [svcY]"
  have h1: "\<not> Err ?u" and h2: "CorrelationID ?u = gatewayServicesWatchID"
    and h3: "Result ?u = IndexedGatewayServices [linked svcY]"
    by (simp_all add: gateway_services_event_def gatewayServicesWatchID_def)
  have ne: "svcX \<noteq> svcY" by (simp add: svcX_def svcY_def)
  have h4: "handleUpdate_gatewayServices scenario4_handler sn_Name ?u
         (scenario4_snapshot, \<lparr>nextCtx = 5, effects_log = []\<rparr>)
       = Some ((scenario4_after,
                \<lparr>nextCtx = 10,
                 effects_log =
                   [Notify 5 HealthServices ''external-service:svcY'' [],
                    Notify 6 IntentionMatch ''service-intentions:svcY'' [],
                    Notify 7 ConnectCALeaf ''service-leaf:svcY'' [],
                    Notify 8 ResolvedServiceConfig ''service-config:svcY'' [],
                    Notify 9 ConfigEntries ''service-resolver:svcY'' [],
                    Cancel 0, Cancel 2, Cancel 3, Cancel 4, Cancel 1]\<rparr>), None)"
    using ne ne [symmetric]
    by (simp add: handleUpdate_gatewayServices_def gateway_services_event_def
          gatewayServicesWatchID_def watch_linked_service_def store_gateway_service_def
          ensure_watch_def start_watch_def WithCancel_def emit_def scenario4_handler_def
          scenario4_snapshot_def scenario4_after_def linked_def delete_absent_def
          cancel_absent_def Let_def externalServiceIDPrefix_def serviceLeafIDPrefix_def
          serviceConfigIDPrefix_def serviceResolverIDPrefix_def serviceIntentionsIDPrefix_def)
       (simp add: svcY_def)
  from gateway_services_update [OF h1 h2 h3 h4]
  have k: "map_keys (WatchedServices scenario4_after) = {svcY}"
    and p: "svcX \<in> map_keys (WatchedServices scenario4_snapshot)
            \<longrightarrow> svcX \<notin> map_keys (ServiceGroups scenario4_after)"
    using ne by (simp_all add: linked_def)
  have x: "svcX \<in> map_keys (WatchedServices scenario4_snapshot)"
    by (simp add: scenario4_snapshot_def map_keys_def)
  from h1 h2 h3 h4 k x p show ?thesis by simp
qed

section \<open>Properties of the intention-upstreams update of a connect proxy\<close>

lemma delete_unseen_filter:
  "delete_unseen s uc seen m = filter (\<lambda>(k, v). kept_upstream s uc seen k) m"
proof -
  have f: "(\<lambda>(sn, _) m'. if other_datacenter s uc sn then m'
                         else if sn \<in> seen then m' else AList.delete sn m')
           = (\<lambda>(sn, _) m'. if sn \<in> {k. kept_upstream s uc seen k} then m'
                            else AList.delete sn m')"
    by (auto simp: fun_eq_iff kept_upstream_def)
  have g: "filter (\<lambda>(k, v). k \<in> {k. kept_upstream s uc seen k} \<or> k \<notin> map_keys m) m
          = filter (\<lambda>(k, v). kept_upstream s uc seen k) m"
    by (intro filter_cong) (force simp: map_keys_def)+
  show ?thesis
    unfolding delete_unseen_def f fold_delete_absent by (rule g)
qed

lemma fold_cancel_unseen_chains:
  "fold (\<lambda>(sn, cancelFn) (cp, w).
             if other_datacenter s (UpstreamConfig cp) sn then (cp, w)
             else if sn \<in> seen then (cp, w)
             else (cp\<lparr>DiscoveryChain := AList.delete sn (DiscoveryChain cp),
                      WatchedDiscoveryChains := AList.delete sn (WatchedDiscoveryChains cp)\<rparr>,
                   emit (Cancel cancelFn) w))
        xs (cp, w)
   = (cp\<lparr>DiscoveryChain :=
            filter (\<lambda>(k, v). k \<notin> map_keys (filter (\<lambda>(k, v). \<not> kept_upstream s (UpstreamConfig cp) seen k) xs))
                   (DiscoveryChain cp),
          WatchedDiscoveryChains :=
            filter (\<lambda>(k, v). k \<notin> map_keys (filter (\<lambda>(k, v). \<not> kept_upstream s (UpstreamConfig cp) seen k) xs))
                   (WatchedDiscoveryChains cp)\<rparr>,
      w\<lparr>effects_log := effects_log w
           @ map (\<lambda>(k, c). Cancel c)
                 (filter (\<lambda>(k, v). \<not> kept_upstream s (UpstreamConfig cp) seen k) xs)\<rparr>)"
proof (induction xs arbitrary: cp w)
  case Nil
  then show ?case by (simp add: map_keys_def)
next
  case (Cons x xs)
  obtain sn c where x: "x = (sn, c)" by (cases x)
  let ?keep = "kept_upstream s (UpstreamConfig cp) seen"
  show ?case
  proof (cases "?keep sn")
    case True
    then have "(if other_datacenter s (UpstreamConfig cp) sn then (cp, w)
                else if sn \<in> seen then (cp, w)
                else (cp\<lparr>DiscoveryChain := AList.delete sn (DiscoveryChain cp),
                         WatchedDiscoveryChains := AList.delete sn (WatchedDiscoveryChains cp)\<rparr>,
                      emit (Cancel c) w)) = (cp, w)"
      by (auto simp: kept_upstream_def)
    with True x show ?thesis by (simp add: Cons.IH)
  next
    case False
    let ?cp1 = "cp\<lparr>DiscoveryChain := AList.delete sn (DiscoveryChain cp),
                   WatchedDiscoveryChains := AList.delete sn (WatchedDiscoveryChains cp)\<rparr>"
    let ?rest = "filter (\<lambda>(k, v). \<not> ?keep k) xs"
    from False have b: "(if other_datacenter s (UpstreamConfig cp) sn then (cp, w)
                else if sn \<in> seen then (cp, w)
                else (?cp1, emit (Cancel c) w)) = (?cp1, emit (Cancel c) w)"
      by (auto simp: kept_upstream_def)
    have f: "filter (\<lambda>(k, v). k \<notin> map_keys ?rest) (AList.delete sn m)
             = filter (\<lambda>(k, v). k \<notin> map_keys ((sn, c) # ?rest)) m" for m :: "(string \<times> 'v) list"
      unfolding delete_is_filter filter_filter
      by (intro filter_cong) (auto simp: map_keys_def)
    from False x show ?thesis
      by (simp add: b Cons.IH f emit_def)
  qed
qed

lemma infers_only_refl: "infers_only seen sw sw"
  by (simp add: infers_only_def)

lemma infers_only_trans:
  assumes "infers_only seen a b" and "infers_only seen b c"
  shows "infers_only seen a c"
proof -
  from assms obtain n1 n2 where
    "effects_log (snd b) = effects_log (snd a) @ n1"
    "effects_log (snd c) = effects_log (snd b) @ n2"
    unfolding infers_only_def Let_def by blast
  then have "effects_log (snd c) = effects_log (snd a) @ (n1 @ n2)" by simp
  then have "\<exists>new. effects_log (snd c) = effects_log (snd a) @ new" by blast
  with assms show ?thesis unfolding infers_only_def Let_def by auto
qed

lemma infers_only_mono:
  "infers_only seen a b \<Longrightarrow> seen \<subseteq> seen' \<Longrightarrow> infers_only seen' a b"
  unfolding infers_only_def Let_def by auto

lemma watchDiscoveryChain_ok:
  assumes "watchDiscoveryChain s opts_id sw = (sw', None)"
  shows "infers_only seen sw sw'"
proof -
  obtain snap w where sw: "sw = (snap, w)" by (cases sw)
  show ?thesis
  proof (cases "map_of (WatchedDiscoveryChains (ConnectProxy snap)) opts_id")
    case (Some c)
    with assms sw have "sw' = sw" by (simp add: watchDiscoveryChain_def)
    then show ?thesis by (simp add: infers_only_refl)
  next
    case None
    let ?cid = "''discovery-chain:'' @ opts_id"
    let ?w1 = "w\<lparr>nextCtx := Suc (nextCtx w),
                  effects_log := effects_log w
                     @ [Notify (nextCtx w) CompiledDiscoveryChain ?cid []]\<rparr>"
    from assms sw None have nf: "\<not> cache_Notify s ?cid"
      by (auto simp: watchDiscoveryChain_def start_watch_def WithCancel_def Let_def
               split: if_splits)
    then have st: "start_watch (cache_Notify s) CompiledDiscoveryChain ?cid w
                     = ((nextCtx w, ?w1), False)"
      by (simp add: start_watch_def WithCancel_def emit_def)
    from assms sw None st
    have "sw' = (snap\<lparr>IngressGateway_WatchedDiscoveryChains :=
                         AList.update opts_id (nextCtx w)
                           (IngressGateway_WatchedDiscoveryChains snap)\<rparr>, ?w1)
          \<or> sw' = (snap\<lparr>ConnectProxy := (ConnectProxy snap)
                            \<lparr>WatchedDiscoveryChains :=
                               AList.update opts_id (nextCtx w)
                                 (WatchedDiscoveryChains (ConnectProxy snap))\<rparr>\<rparr>, ?w1)"
      by (auto simp: watchDiscoveryChain_def Let_def split: if_splits)
    then show ?thesis
      using None unfolding sw infers_only_def Let_def
      by (auto simp: update_conv')
  qed
qed

lemma infer_upstream_ok:
  assumes "infer_upstream s pkg svc sw = (sw', None)"
    and "ServiceName_String pkg svc \<in> seen"
  shows "infers_only seen sw sw'"
proof -
  obtain snap w where sw: "sw = (snap, w)" by (cases sw)
  let ?id = "ServiceName_String pkg svc"
  let ?cp = "ConnectProxy snap"
  define adopted where
    "adopted = (case map_of (UpstreamConfig ?cp) ?id of
                  Some u \<Rightarrow> snap
                | None \<Rightarrow>
                    (case map_of (UpstreamConfig ?cp) (wildcardSID_String pkg) of
                       Some defaults \<Rightarrow>
                         snap\<lparr>ConnectProxy := ?cp
                           \<lparr>UpstreamConfig := AList.update ?id defaults (UpstreamConfig ?cp)\<rparr>\<rparr>
                     | None \<Rightarrow> snap))"
  have a: "infers_only seen (snap, w) (adopted, w1)"
    if "\<exists>new. effects_log w1 = effects_log w @ new" for w1
    using that assms(2) unfolding adopted_def infers_only_def Let_def
    by (auto simp: update_conv' split: option.splits)
  from assms(1) sw obtain w1 where
    w1': "w1 = w \<or> (\<exists>msg. w1 = emit (Warn msg) w)"
    and r: "watchDiscoveryChain s ?id (adopted, w1) = (sw', None)"
    unfolding infer_upstream_def adopted_def
    by (auto simp: Let_def split: option.splits if_splits)
  from w1' have w1: "\<exists>new. effects_log w1 = effects_log w @ new"
    by (auto simp: emit_def)
  from a [OF w1] watchDiscoveryChain_ok [OF r] show ?thesis
    unfolding sw by (rule infers_only_trans)
qed

lemma infer_upstreams_ok:
  assumes "steps (map (infer_upstream s pkg) services) sw = (sw', None)"
  shows "infers_only (set (map (ServiceName_String pkg) services)) sw sw'"
  using assms
proof (induction services arbitrary: sw)
  case Nil
  then show ?case by (simp add: infers_only_refl)
next
  case (Cons svc services)
  let ?seen = "set (map (ServiceName_String pkg) (svc # services))"
  from Cons.prems
  have "steps (infer_upstream s pkg svc # map (infer_upstream s pkg) services) sw = (sw', None)"
    by simp
  then obtain a where a: "infer_upstream s pkg svc sw = (a, None)"
    and r: "steps (map (infer_upstream s pkg) services) a = (sw', None)"
    by (rule steps_Cons_ok)
  have "infers_only ?seen sw a" by (rule infer_upstream_ok [OF a]) simp
  moreover have "infers_only ?seen a sw'"
    by (rule infers_only_mono [OF Cons.IH [OF r]]) auto
  ultimately show ?case by (rule infers_only_trans)
qed

lemma other_datacenter_cong:
  "map_of uc sn = map_of uc' sn \<Longrightarrow> other_datacenter s uc' sn = other_datacenter s uc sn"
  by (simp add: other_datacenter_def)

lemma handleUpdate_intentionUpstreams_ok:
  assumes ev: "\<not> Err u" "CorrelationID u = intentionUpstreamsID"
      "Result u = IndexedServiceList services"
    and ok: "handleUpdate_intentionUpstreams s pkg u (snap, w) = Some ((snap', w'), None)"
  obtains snap1 w1 where
    "steps (map (infer_upstream s pkg) services) (snap, w) = ((snap1, w1), None)"
    "cancel_unseen_chains s (set (map (ServiceName_String pkg) services))
       ((ConnectProxy snap1)
          \<lparr>WatchedUpstreams :=
             filter (\<lambda>(k, v). kept_upstream s (UpstreamConfig (ConnectProxy snap1))
                                (set (map (ServiceName_String pkg) services)) k)
                    (WatchedUpstreams (ConnectProxy snap1)),
           WatchedUpstreamEndpoints :=
             filter (\<lambda>(k, v). kept_upstream s (UpstreamConfig (ConnectProxy snap1))
                                (set (map (ServiceName_String pkg) services)) k)
                    (WatchedUpstreamEndpoints (ConnectProxy snap1)),
           WatchedGateways :=
             filter (\<lambda>(k, v). kept_upstream s (UpstreamConfig (ConnectProxy snap1))
                                (set (map (ServiceName_String pkg) services)) k)
                    (WatchedGateways (ConnectProxy snap1)),
           WatchedGatewayEndpoints :=
             filter (\<lambda>(k, v). kept_upstream s (UpstreamConfig (ConnectProxy snap1))
                                (set (map (ServiceName_String pkg) services)) k)
                    (WatchedGatewayEndpoints (ConnectProxy snap1))\<rparr>,
        w1)
     = (ConnectProxy snap', w')"
proof -
  obtain sw1 e where p: "steps (map (infer_upstream s pkg) services) (snap, w) = (sw1, e)"
    by (cases "steps (map (infer_upstream s pkg) services) (snap, w)")
  obtain snap1 w1 where sw1: "sw1 = (snap1, w1)" by (cases sw1)
  from ok ev p have e: "e = None"
    by (cases e) (simp_all add: handleUpdate_intentionUpstreams_def)
  from ok ev p e sw1 have
    "cancel_unseen_chains s (set (map (ServiceName_String pkg) services))
       ((ConnectProxy snap1)
          \<lparr>WatchedUpstreams :=
             filter (\<lambda>(k, v). kept_upstream s (UpstreamConfig (ConnectProxy snap1))
                                (set (map (ServiceName_String pkg) services)) k)
                    (WatchedUpstreams (ConnectProxy snap1)),
           WatchedUpstreamEndpoints :=
             filter (\<lambda>(k, v). kept_upstream s (UpstreamConfig (ConnectProxy snap1))
                                (set (map (ServiceName_String pkg) services)) k)
                    (WatchedUpstreamEndpoints (ConnectProxy snap1)),
           WatchedGateways :=
             filter (\<lambda>(k, v). kept_upstream s (UpstreamConfig (ConnectProxy snap1))
                                (set (map (ServiceName_String pkg) services)) k)
                    (WatchedGateways (ConnectProxy snap1)),
           WatchedGatewayEndpoints :=
             filter (\<lambda>(k, v). kept_upstream s (UpstreamConfig (ConnectProxy snap1))
                                (set (map (ServiceName_String pkg) services)) k)
                    (WatchedGatewayEndpoints (ConnectProxy snap1))\<rparr>,
        w1)
     = (ConnectProxy snap', w')"
    by (auto simp: handleUpdate_intentionUpstreams_def delete_unseen_filter Let_def
             simp del: set_map split: prod.splits)
  with p e sw1 that show thesis by simp
qed

lemma cancel_unseen_chains_eq:
  "cancel_unseen_chains s seen (cp, w)
   = (cp\<lparr>DiscoveryChain :=
            filter (\<lambda>(k, v). k \<notin> map_keys (filter (\<lambda>(k, v). \<not> kept_upstream s (UpstreamConfig cp) seen k)
                                               (WatchedDiscoveryChains cp)))
                   (DiscoveryChain cp),
          WatchedDiscoveryChains :=
            filter (\<lambda>(k, v). kept_upstream s (UpstreamConfig cp) seen k) (WatchedDiscoveryChains cp)\<rparr>,
      w\<lparr>effects_log := effects_log w
           @ map (\<lambda>(k, c). Cancel c)
                 (filter (\<lambda>(k, v). \<not> kept_upstream s (UpstreamConfig cp) seen k)
                         (WatchedDiscoveryChains cp))\<rparr>)"
proof -
  have "filter (\<lambda>(k, v). k \<notin> map_keys (filter (\<lambda>(k, v). \<not> kept_upstream s (UpstreamConfig cp) seen k)
                                               (WatchedDiscoveryChains cp)))
               (WatchedDiscoveryChains cp)
        = filter (\<lambda>(k, v). kept_upstream s (UpstreamConfig cp) seen k) (WatchedDiscoveryChains cp)"
    by (intro filter_cong) (force simp: map_keys_def)+
  then show ?thesis
    by (simp add: cancel_unseen_chains_def fold_cancel_unseen_chains)
qed

text \<open>
  Claim C4 speaks of every intention-upstreams update. When the watch of a service of
  the payload cannot be registered, the handler returns the error before its clean-up
  loops: the upstream \<open>old\<close>, neither in the payload nor pinned to another datacenter,
  keeps its entries and its chain watch is not cancelled.
\<close>

theorem intention_upstreams_failed_watch:
  "''old'' \<notin> set (map (ServiceName_String oss_pkg) (map service_named [''svcA'', ''svcB'']))
   \<and> \<not> other_datacenter failing_cache_handler
          (UpstreamConfig (ConnectProxy transparent_snapshot)) ''old''
   \<and> handleUpdate_intentionUpstreams failing_cache_handler oss_pkg
         (intention_upstreams_event [''svcA'', ''svcB''])
         (transparent_snapshot, \<lparr>nextCtx = 10, effects_log = []\<rparr>)
       = Some ((transparent_snapshot,
                \<lparr>nextCtx = 11,
                 effects_log = [Notify 10 CompiledDiscoveryChain ''discovery-chain:svcB'' [],
                                Cancel 10]\<rparr>),
               Some (NotifyFailed ''discovery-chain:svcB''))
   \<and> map_of (WatchedUpstreams (ConnectProxy transparent_snapshot)) ''old''
       = Some [(''old.default.dc1'', 4)]
   \<and> map_of (WatchedDiscoveryChains (ConnectProxy transparent_snapshot)) ''old'' = Some 1"
  by (simp add: handleUpdate_intentionUpstreams_def intention_upstreams_event_def
        intentionUpstreamsID_def infer_upstream_def watchDiscoveryChain_def start_watch_def
        WithCancel_def emit_def failing_cache_handler_def transparent_handler_def
        transparent_snapshot_def oss_pkg_def service_named_def other_datacenter_def
        remote_upstream_def Let_def)

text \<open>
  Claim C4, amended. On every intention-upstreams update that the handler handles
  without returning an error: each upstream id that is not among the services of the
  payload, and whose configured datacenter is empty or the source datacenter (or that
  has no configuration), is gone from WatchedUpstreams, WatchedUpstreamEndpoints,
  WatchedGateways, WatchedGatewayEndpoints and WatchedDiscoveryChains, and when it had
  a chain watch that watch is cancelled and its chain forgotten; the entries of an
  upstream pinned to another datacenter are kept.
\<close>

theorem intention_upstreams_update:
  fixes snap snap' :: "('c, 'p) ConfigSnapshot"
  assumes ev: "\<not> Err u" "CorrelationID u = intentionUpstreamsID"
      "Result u = IndexedServiceList services"
    and ok: "handleUpdate_intentionUpstreams s pkg u (snap, w) = Some ((snap', w'), None)"
  defines "seen \<equiv> set (map (ServiceName_String pkg) services)"
    and "cp \<equiv> ConnectProxy snap" and "cp' \<equiv> ConnectProxy snap'"
  shows "\<exists>new. effects_log w' = effects_log w @ new
       \<and> (\<forall>sn. sn \<notin> seen \<and> \<not> other_datacenter s (UpstreamConfig cp) sn \<longrightarrow>
              sn \<notin> map_keys (WatchedUpstreams cp')
            \<and> sn \<notin> map_keys (WatchedUpstreamEndpoints cp')
            \<and> sn \<notin> map_keys (WatchedGateways cp')
            \<and> sn \<notin> map_keys (WatchedGatewayEndpoints cp')
            \<and> sn \<notin> map_keys (WatchedDiscoveryChains cp')
            \<and> (\<forall>c. map_of (WatchedDiscoveryChains cp) sn = Some c \<longrightarrow>
                   Cancel c \<in> set new \<and> sn \<notin> map_keys (DiscoveryChain cp')))
       \<and> (\<forall>sn. other_datacenter s (UpstreamConfig cp) sn \<longrightarrow>
              map_of (WatchedUpstreams cp') sn = map_of (WatchedUpstreams cp) sn
            \<and> map_of (WatchedUpstreamEndpoints cp') sn = map_of (WatchedUpstreamEndpoints cp) sn
            \<and> map_of (WatchedGateways cp') sn = map_of (WatchedGateways cp) sn
            \<and> map_of (WatchedGatewayEndpoints cp') sn = map_of (WatchedGatewayEndpoints cp) sn
            \<and> map_of (DiscoveryChain cp') sn = map_of (DiscoveryChain cp) sn
            \<and> (\<forall>c. map_of (WatchedDiscoveryChains cp) sn = Some c \<longrightarrow>
                   map_of (WatchedDiscoveryChains cp') sn = Some c))"
proof -
  from ev ok obtain snap1 w1 where
    p1: "steps (map (infer_upstream s pkg) services) (snap, w) = ((snap1, w1), None)"
    and p2: "cancel_unseen_chains s seen
       ((ConnectProxy snap1)
          \<lparr>WatchedUpstreams :=
             filter (\<lambda>(k, v). kept_upstream s (UpstreamConfig (ConnectProxy snap1)) seen k)
                    (WatchedUpstreams (ConnectProxy snap1)),
           WatchedUpstreamEndpoints :=
             filter (\<lambda>(k, v). kept_upstream s (UpstreamConfig (ConnectProxy snap1)) seen k)
                    (WatchedUpstreamEndpoints (ConnectProxy snap1)),
           WatchedGateways :=
             filter (\<lambda>(k, v). kept_upstream s (UpstreamConfig (ConnectProxy snap1)) seen k)
                    (WatchedGateways (ConnectProxy snap1)),
           WatchedGatewayEndpoints :=
             filter (\<lambda>(k, v). kept_upstream s (UpstreamConfig (ConnectProxy snap1)) seen k)
                    (WatchedGatewayEndpoints (ConnectProxy snap1))\<rparr>,
        w1)
     = (cp', w')"
    unfolding seen_def cp'_def by (rule handleUpdate_intentionUpstreams_ok)
  define cp1 where "cp1 = ConnectProxy snap1"
  define keep where "keep = kept_upstream s (UpstreamConfig cp1) seen"
  define gone where "gone = filter (\<lambda>(k, v). \<not> keep k) (WatchedDiscoveryChains cp1)"
  from infer_upstreams_ok [OF p1] obtain n1 where
    r0: "effects_log w1 = effects_log w @ n1"
    and r1: "WatchedUpstreams cp1 = WatchedUpstreams cp"
    and r2: "WatchedUpstreamEndpoints cp1 = WatchedUpstreamEndpoints cp"
    and r3: "WatchedGateways cp1 = WatchedGateways cp"
    and r4: "WatchedGatewayEndpoints cp1 = WatchedGatewayEndpoints cp"
    and r5: "DiscoveryChain cp1 = DiscoveryChain cp"
    and r6: "\<And>k c. map_of (WatchedDiscoveryChains cp) k = Some c
                \<Longrightarrow> map_of (WatchedDiscoveryChains cp1) k = Some c"
    and r7: "\<And>k. k \<notin> seen \<Longrightarrow> map_of (UpstreamConfig cp1) k = map_of (UpstreamConfig cp) k"
    and r8: "\<And>k up. map_of (UpstreamConfig cp) k = Some up
                \<Longrightarrow> map_of (UpstreamConfig cp1) k = Some up"
    unfolding infers_only_def Let_def seen_def cp_def cp1_def by auto
  from p2 have
    c1: "WatchedUpstreams cp' = filter (\<lambda>(k, v). keep k) (WatchedUpstreams cp)"
    and c2: "WatchedUpstreamEndpoints cp' = filter (\<lambda>(k, v). keep k) (WatchedUpstreamEndpoints cp)"
    and c3: "WatchedGateways cp' = filter (\<lambda>(k, v). keep k) (WatchedGateways cp)"
    and c4: "WatchedGatewayEndpoints cp' = filter (\<lambda>(k, v). keep k) (WatchedGatewayEndpoints cp)"
    and c5: "WatchedDiscoveryChains cp' = filter (\<lambda>(k, v). keep k) (WatchedDiscoveryChains cp1)"
    and c6: "DiscoveryChain cp' = filter (\<lambda>(k, v). k \<notin> map_keys gone) (DiscoveryChain cp)"
    and c7: "effects_log w' = effects_log w1 @ map (\<lambda>(k, c). Cancel c) gone"
    unfolding cancel_unseen_chains_eq keep_def gone_def cp1_def [symmetric]
      r1 [symmetric] r2 [symmetric] r3 [symmetric] r4 [symmetric] r5 [symmetric]
    by auto
  have unkept: "\<not> keep sn" if "sn \<notin> seen" "\<not> other_datacenter s (UpstreamConfig cp) sn" for sn
    using that other_datacenter_cong [OF r7 [OF that(1)], of s]
    by (simp add: keep_def kept_upstream_def)
  have kept: "keep sn" if "other_datacenter s (UpstreamConfig cp) sn" for sn
  proof -
    from that obtain up where "map_of (UpstreamConfig cp) sn = Some up"
      by (auto simp: other_datacenter_def split: option.splits)
    from this r8 [OF this] have "map_of (UpstreamConfig cp1) sn = map_of (UpstreamConfig cp) sn"
      by simp
    from other_datacenter_cong [OF this, of s] that show ?thesis
      by (simp add: keep_def kept_upstream_def)
  qed
  let ?new = "n1 @ map (\<lambda>(k, c). Cancel c) gone"
  have e: "effects_log w' = effects_log w @ ?new" using c7 r0 by simp
  have A: "sn \<notin> map_keys (WatchedUpstreams cp')
            \<and> sn \<notin> map_keys (WatchedUpstreamEndpoints cp')
            \<and> sn \<notin> map_keys (WatchedGateways cp')
            \<and> sn \<notin> map_keys (WatchedGatewayEndpoints cp')
            \<and> sn \<notin> map_keys (WatchedDiscoveryChains cp')
            \<and> (\<forall>c. map_of (WatchedDiscoveryChains cp) sn = Some c \<longrightarrow>
                   Cancel c \<in> set ?new \<and> sn \<notin> map_keys (DiscoveryChain cp'))"
    if h: "sn \<notin> seen \<and> \<not> other_datacenter s (UpstreamConfig cp) sn" for sn
  proof -
    from h have nk: "\<not> keep sn" using unkept by blast
    have g: "Cancel c \<in> set ?new \<and> sn \<notin> map_keys (DiscoveryChain cp')"
      if "map_of (WatchedDiscoveryChains cp) sn = Some c" for c
    proof -
      from r6 [OF that] have "(sn, c) \<in> set (WatchedDiscoveryChains cp1)" by (rule map_of_SomeD)
      with nk have "(sn, c) \<in> set gone" by (simp add: gone_def)
      then have "Cancel c \<in> set (map (\<lambda>(k, c). Cancel c) gone)" and "sn \<in> map_keys gone"
        by (force simp: map_keys_def)+
      then show ?thesis by (simp add: c6 map_keys_filter)
    qed
    from nk g show ?thesis by (simp add: c1 c2 c3 c4 c5 map_keys_filter)
  qed
  have B: "map_of (WatchedUpstreams cp') sn = map_of (WatchedUpstreams cp) sn
            \<and> map_of (WatchedUpstreamEndpoints cp') sn = map_of (WatchedUpstreamEndpoints cp) sn
            \<and> map_of (WatchedGateways cp') sn = map_of (WatchedGateways cp) sn
            \<and> map_of (WatchedGatewayEndpoints cp') sn = map_of (WatchedGatewayEndpoints cp) sn
            \<and> map_of (DiscoveryChain cp') sn = map_of (DiscoveryChain cp) sn
            \<and> (\<forall>c. map_of (WatchedDiscoveryChains cp) sn = Some c \<longrightarrow>
                   map_of (WatchedDiscoveryChains cp') sn = Some c)"
    if h: "other_datacenter s (UpstreamConfig cp) sn" for sn
  proof -
    from h have k: "keep sn" by (rule kept)
    then have "sn \<notin> map_keys gone" by (auto simp: gone_def map_keys_def)
    with k r6 show ?thesis by (simp add: c1 c2 c3 c4 c5 c6 map_of_filter_key)
  qed
  from e A B show ?thesis by (intro exI [of _ ?new]) blast
qed

theorem intention_upstreams_update_witness:
  "\<not> Err (intention_upstreams_event [''svcA'', ''svcB''])
   \<and> CorrelationID (intention_upstreams_event [''svcA'', ''svcB'']) = intentionUpstreamsID
   \<and> Result (intention_upstreams_event [''svcA'', ''svcB''])
       = IndexedServiceList [service_named ''svcA'', service_named ''svcB'']
   \<and> handleUpdate_intentionUpstreams transparent_handler oss_pkg
         (intention_upstreams_event [''svcA'', ''svcB''])
         (transparent_snapshot, \<lparr>nextCtx = 10, effects_log = []\<rparr>)
       = Some ((transparent_after,
                \<lparr>nextCtx = 11,
                 effects_log = [Notify 10 CompiledDiscoveryChain ''discovery-chain:svcB'' [],
                                Cancel 1]\<rparr>), None)
   \<and> ''old'' \<notin> set (map (ServiceName_String oss_pkg)
                          [service_named ''svcA'', service_named ''svcB''])
   \<and> \<not> other_datacenter transparent_handler
          (UpstreamConfig (ConnectProxy transparent_snapshot)) ''old''
   \<and> ''old'' \<notin> map_keys (WatchedUpstreams (ConnectProxy transparent_after))
   \<and> other_datacenter transparent_handler
          (UpstreamConfig (ConnectProxy transparent_snapshot)) ''remote''
   \<and> map_of (WatchedUpstreams (ConnectProxy transparent_after)) ''remote''
       = Some [(''remote.default.dc2'', 5)]"
proof -
  let ?u = "intention_upstreams_event [''svcA'', ''svcB'']"
  have h1: "\<not> Err ?u" and h2: "CorrelationID ?u = intentionUpstreamsID"
    and h3: "Result ?u = IndexedServiceList [service_named ''svcA'', service_named ''svcB'']"
    by (simp_all add: intention_upstreams_event_def intentionUpstreamsID_def)
  have h4: "handleUpdate_intentionUpstreams transparent_handler oss_pkg ?u
         (transparent_snapshot, \<lparr>nextCtx = 10, effects_log = []\<rparr>)
       = Some ((transparent_after,
                \<lparr>nextCtx = 11,
                 effects_log = [Notify 10 CompiledDiscoveryChain ''discovery-chain:svcB'' [],
                                Cancel 1]\<rparr>), None)"
    by (simp add: handleUpdate_intentionUpstreams_def intention_upstreams_event_def
          intentionUpstreamsID_def infer_upstream_def watchDiscoveryChain_def start_watch_def
          WithCancel_def emit_def transparent_handler_def ServiceKindConnectProxy_def
          ServiceKindIngressGateway_def transparent_snapshot_def transparent_after_def
          oss_pkg_def service_named_def other_datacenter_def remote_upstream_def
          delete_unseen_def cancel_unseen_chains_def Let_def)
  have a: "''old'' \<notin> set (map (ServiceName_String oss_pkg)
                          [service_named ''svcA'', service_named ''svcB''])"
    and b: "\<not> other_datacenter transparent_handler
              (UpstreamConfig (ConnectProxy transparent_snapshot)) ''old''"
    and c: "other_datacenter transparent_handler
              (UpstreamConfig (ConnectProxy transparent_snapshot)) ''remote''"
    and d: "map_of (WatchedUpstreams (ConnectProxy transparent_snapshot)) ''remote''
              = Some [(''remote.default.dc2'', 5)]"
    by (simp_all add: oss_pkg_def service_named_def other_datacenter_def
          transparent_snapshot_def transparent_handler_def remote_upstream_def)
  from intention_upstreams_update [OF h1 h2 h3 h4] a b c d
  have "''old'' \<notin> map_keys (WatchedUpstreams (ConnectProxy transparent_after))"
    and "map_of (WatchedUpstreams (ConnectProxy transparent_after)) ''remote''
           = Some [(''remote.default.dc2'', 5)]"
    by auto
  with h1 h2 h3 h4 a b c show ?thesis by simp
qed

end
